theory Spec2Isabelle
  imports Main "HOL-Library.Sublist"
begin

section \<open>Python values used by \<open>main.py\<close>\<close>

text \<open>
  A Python \<open>str\<close> is a sequence of Unicode code points, and slicing and \<open>len\<close> count
  code points. The model therefore uses lists of natural numbers, one number per code
  point; \<open>u\<close> turns an ASCII literal into such a list. The four emoji of the source's
  messages are written as their code points.
\<close>

type_synonym ustr = "nat list"

definition u :: "string \<Rightarrow> ustr" where
  "u s = map of_char s"

text \<open>
  What a call can raise, split the way the \<open>except\<close> clauses of the source split it:
  instances of \<open>Exception\<close> (carrying the text \<open>str(e)\<close>), \<open>KeyboardInterrupt\<close>, and
  the remaining classes that derive from \<open>BaseException\<close> only (\<open>SystemExit\<close>,
  \<open>GeneratorExit\<close>, \<open>asyncio.CancelledError\<close>).
\<close>

datatype py_raise = Exception ustr | KeyboardInterrupt | OtherBaseException

section \<open>Memory gateway\<close>

text \<open>
  The module-level \<open>client = MemoryClient()\<close> is an external service. It is modelled as
  the function from a call to what that call does: return a value (\<open>Inr\<close>) or raise
  (\<open>Inl\<close>). A message is a dict literal with the keys in source order.
\<close>

type_synonym pydict = "(ustr \<times> ustr) list"

datatype client_call =
    Add "pydict list" ustr
  | Search ustr ustr

type_synonym 'm client = "client_call \<Rightarrow> py_raise + 'm"

text \<open>
  Both tools return the list of client calls they made together with their own outcome:
  \<open>Inr\<close> the returned string, \<open>Inl\<close> what escapes the function.
  \<open>except Exception\<close> does not catch the classes outside \<open>Exception\<close>.
\<close>

definition store_user_request_in_mem0 ::
    "'m client \<Rightarrow> ustr \<Rightarrow> client_call list \<times> (py_raise + ustr)" where
  "store_user_request_in_mem0 client user_request =
     (let messages = [[(u ''role'', u ''user''), (u ''content'', user_request)]];
          call = Add messages (u ''reddit_user'')
      in ([call],
          case client call of
            Inr result \<Rightarrow>
              Inr ([0x2728] @ u '' Successfully stored user request in memory: ''
                     @ take 50 user_request @ u ''...'')
          | Inl (Exception e) \<Rightarrow> Inr ([0x274C] @ u '' Error storing in memory: '' @ e)
          | Inl KeyboardInterrupt \<Rightarrow> Inl KeyboardInterrupt
          | Inl OtherBaseException \<Rightarrow> Inl OtherBaseException))"

text \<open>
  \<open>fmt\<close> is the text that the f-string puts in place of \<open>{relevant_memories}\<close>.
\<close>

definition search_mem0_memories ::
    "'m client \<Rightarrow> ('m \<Rightarrow> ustr) \<Rightarrow> ustr \<Rightarrow> client_call list \<times> (py_raise + ustr)" where
  "search_mem0_memories client fmt query =
     (let call = Search query (u ''reddit_user'')
      in ([call],
          case client call of
            Inr relevant_memories \<Rightarrow>
              Inr ([0x1F4DA] @ u '' Relevant memories found for this query: ''
                     @ fmt relevant_memories)
          | Inl (Exception e) \<Rightarrow> Inr ([0x1F50D] @ u '' Error searching memories: '' @ e)
          | Inl KeyboardInterrupt \<Rightarrow> Inl KeyboardInterrupt
          | Inl OtherBaseException \<Rightarrow> Inl OtherBaseException))"

text \<open>Two clients for concrete runs: one whose calls raise
  \<open>ConnectionError("down")\<close>, one whose calls return.\<close>

definition client_down :: "unit client" where
  "client_down call = Inl (Exception (u ''down''))"

definition client_ok :: "unit client" where
  "client_ok call = Inr ()"

section \<open>Supervisor loop\<close>

text \<open>
  The \<open>while True\<close> loop of \<open>main\<close>. Each pass calls \<open>crew.kickoff()\<close> and awaits
  \<open>asyncio.sleep\<close>; a \<open>cycle\<close> says what each of these calls does in that pass if it is
  reached. \<open>Raises KeyboardInterrupt\<close> stands for a \<open>KeyboardInterrupt\<close> raised inside
  \<open>main\<close> by the call in progress; what an interrupt signal raises during an \<open>await\<close>
  is \<open>sigint_during_await\<close> below.
  Logging is recorded as an action and does not fail. The list of cycles is the
  environment of a run and bounds its length: when the list is used up the loop is
  still \<open>Running\<close>.
\<close>

datatype outcome = Returns | Raises py_raise

record cycle =
  kickoff :: outcome
  sleep1 :: outcome
  sleep5 :: outcome

datatype action = LogInfo ustr | LogError ustr | Kickoff | Sleep nat

datatype flow = Next | Break | Raise py_raise

datatype status = Running | Stopped | Propagated py_raise

definition starting :: ustr where
  "starting = u ''Starting new Reddit post generation cycle''"

definition shutting_down :: ustr where
  "shutting_down = u ''Received keyboard interrupt, shutting down gracefully...''"

text \<open>The body of the \<open>try\<close>: the actions done and how the body ends.\<close>

definition try_body :: "cycle \<Rightarrow> action list \<times> outcome" where
  "try_body c =
     (case kickoff c of
        Raises x \<Rightarrow> ([LogInfo starting, Kickoff], Raises x)
      | Returns \<Rightarrow> ([LogInfo starting, Kickoff, Sleep 1], sleep1 c))"

text \<open>
  One pass of the loop. The \<open>sleep(5)\<close> runs inside the second handler, outside the
  \<open>try\<close>: whatever it raises leaves the loop.
\<close>

definition iteration :: "cycle \<Rightarrow> action list \<times> flow" where
  "iteration c =
     (case try_body c of
        (tr, Returns) \<Rightarrow> (tr, Next)
      | (tr, Raises KeyboardInterrupt) \<Rightarrow> (tr @ [LogInfo shutting_down], Break)
      | (tr, Raises (Exception e)) \<Rightarrow>
          (tr @ [LogError (u ''Error in agent loop: '' @ e), Sleep 5],
           case sleep5 c of Returns \<Rightarrow> Next | Raises y \<Rightarrow> Raise y)
      | (tr, Raises OtherBaseException) \<Rightarrow> (tr, Raise OtherBaseException))"

fun main_loop :: "cycle list \<Rightarrow> action list \<times> status" where
  "main_loop [] = ([], Running)"
| "main_loop (c # cs) =
     (case iteration c of
        (tr, Next) \<Rightarrow> (case main_loop cs of (tr', st) \<Rightarrow> (tr @ tr', st))
      | (tr, Break) \<Rightarrow> (tr, Stopped)
      | (tr, Raise x) \<Rightarrow> (tr, Propagated x))"

text \<open>
  Line 191 runs \<open>main\<close> under \<open>asyncio.run\<close>. While \<open>main\<close> is suspended in
  \<open>await asyncio.sleep\<close>, an interrupt signal does not raise \<open>KeyboardInterrupt\<close> inside
  \<open>main\<close>: the main task is cancelled and the \<open>await\<close> raises
  \<open>asyncio.CancelledError\<close>, a class outside \<open>Exception\<close>. \<open>asyncio.run\<close> raises
  \<open>KeyboardInterrupt\<close> itself after the task has ended.
\<close>

definition sigint_during_await :: outcome where
  "sigint_during_await = Raises OtherBaseException"

text \<open>The actions of a pass whose cycle call returns, and of one where it raises an
  \<open>Exception\<close> with text \<open>e\<close>.\<close>

definition ok_cycle :: cycle where
  "ok_cycle = \<lparr>kickoff = Returns, sleep1 = Returns, sleep5 = Returns\<rparr>"

definition failing_cycle :: "ustr \<Rightarrow> cycle" where
  "failing_cycle e = \<lparr>kickoff = Raises (Exception e), sleep1 = Returns, sleep5 = Returns\<rparr>"

section \<open>Session bootstrap\<close>

text \<open>
  \<open>urllib.parse.urlencode\<close> belongs to the Python standard library. The definitions
  below follow CPython's \<open>Lib/urllib/parse.py\<close>: \<open>quote\<close> encodes the string as UTF-8
  (\<open>errors='strict'\<close>, so a lone surrogate raises \<open>UnicodeEncodeError\<close>, here \<open>None\<close>),
  and \<open>quote_from_bytes\<close> keeps the bytes of the safe set and writes every other byte
  as \<open>%XX\<close> with upper-case hexadecimal digits. A Python string holds code points
  below \<open>0x110000\<close> only; \<open>encode_utf8_char\<close> gives \<open>None\<close> for larger numbers too, so
  that no result is claimed for lists that are not strings.
\<close>

definition encode_utf8_char :: "nat \<Rightarrow> nat list option" where
  "encode_utf8_char c =
     (if c < 0x80 then Some [c]
      else if c < 0x800 then Some [0xC0 + c div 0x40, 0x80 + c mod 0x40]
      else if 0xD800 \<le> c \<and> c \<le> 0xDFFF then None
      else if c < 0x10000 then
        Some [0xE0 + c div 0x1000, 0x80 + c div 0x40 mod 0x40, 0x80 + c mod 0x40]
      else if c < 0x110000 then
        Some [0xF0 + c div 0x40000, 0x80 + c div 0x1000 mod 0x40,
              0x80 + c div 0x40 mod 0x40, 0x80 + c mod 0x40]
      else None)"

fun encode_utf8 :: "ustr \<Rightarrow> nat list option" where
  "encode_utf8 [] = Some []"
| "encode_utf8 (c # cs) =
     (case encode_utf8_char c of
        None \<Rightarrow> None
      | Some bs \<Rightarrow> (case encode_utf8 cs of None \<Rightarrow> None | Some rest \<Rightarrow> Some (bs @ rest)))"

definition always_safe :: "nat list" where
  "always_safe = u ''ABCDEFGHIJKLMNOPQRSTUVWXYZabcdefghijklmnopqrstuvwxyz0123456789_.-~''"

definition hex_digit :: "nat \<Rightarrow> nat" where
  "hex_digit d = (if d < 10 then 48 + d else 55 + d)"

definition quoter :: "nat list \<Rightarrow> nat \<Rightarrow> ustr" where
  "quoter safe b =
     (if b \<in> set (always_safe @ safe) then [b]
      else [37, hex_digit (b div 16), hex_digit (b mod 16)])"

definition quote_from_bytes :: "nat list \<Rightarrow> ustr \<Rightarrow> ustr" where
  "quote_from_bytes bs safe =
     (if bs = [] then []
      else let safe = filter (\<lambda>c. c < 128) safe
           in if list_all (\<lambda>b. b \<in> set (always_safe @ safe)) bs then bs
              else concat (map (quoter safe) bs))"

definition quote :: "ustr \<Rightarrow> ustr \<Rightarrow> ustr option" where
  "quote string safe =
     (if string = [] then Some string
      else case encode_utf8 string of
             None \<Rightarrow> None
           | Some bs \<Rightarrow> Some (quote_from_bytes bs safe))"

definition replace :: "nat \<Rightarrow> nat \<Rightarrow> ustr \<Rightarrow> ustr" where
  "replace old new s = map (\<lambda>c. if c = old then new else c) s"

definition quote_plus :: "ustr \<Rightarrow> ustr \<Rightarrow> ustr option" where
  "quote_plus string safe =
     (if 32 \<notin> set string then quote string safe
      else case quote string (safe @ u '' '') of
             None \<Rightarrow> None
           | Some s \<Rightarrow> Some (replace 32 43 s))"

fun py_str :: "ustr option \<Rightarrow> ustr" where
  "py_str None = u ''None''"
| "py_str (Some s) = s"

fun join :: "ustr \<Rightarrow> ustr list \<Rightarrow> ustr" where
  "join sep [] = []"
| "join sep [x] = x"
| "join sep (x # y # ys) = x @ sep @ join sep (y # ys)"

fun urlencode_items :: "(ustr \<times> ustr option) list \<Rightarrow> ustr list option" where
  "urlencode_items [] = Some []"
| "urlencode_items ((k, v) # query) =
     (case quote_plus k [] of
        None \<Rightarrow> None
      | Some k' \<Rightarrow>
          (case quote_plus (py_str v) [] of
             None \<Rightarrow> None
           | Some v' \<Rightarrow>
               (case urlencode_items query of
                  None \<Rightarrow> None
                | Some l \<Rightarrow> Some ((k' @ u ''='' @ v') # l))))"

definition urlencode :: "(ustr \<times> ustr option) list \<Rightarrow> ustr option" where
  "urlencode query = map_option (join (u ''&'')) (urlencode_items query)"

text \<open>
  Lines 36 to 42 of \<open>setup_mcp_tools\<close>: the value of \<open>CORAL_SERVER_URL\<close> for the two
  results of \<open>os.getenv\<close>, or \<open>None\<close> when \<open>urlencode\<close> raises. \<open>py_str\<close> is \<open>str()\<close>
  on an optional string, which is also what the f-string does with \<open>base_url\<close>.
\<close>

definition coral_server_url :: "ustr option \<Rightarrow> ustr option \<Rightarrow> ustr option" where
  "coral_server_url base_url agent_id =
     (let coral_params =
            [(u ''agentId'', agent_id),
             (u ''agentDescription'',
              Some (u ''An AI agent that generates Reddit posts with memory-enhanced personalization''))]
      in case urlencode coral_params of
           None \<Rightarrow> None
         | Some query_string \<Rightarrow> Some (py_str base_url @ u ''?'' @ query_string))"

text \<open>
  Lines 28 to 30: \<open>environ\<close> is \<open>os.environ\<close> when the function is called and \<open>dotenv\<close>
  holds the variables of the \<open>.env\<close> file; \<open>load_dotenv(override=True)\<close> lets the file
  win over the environment.
\<close>

type_synonym environ = "ustr \<rightharpoonup> ustr"

definition load_dotenv :: "bool \<Rightarrow> environ \<Rightarrow> environ \<Rightarrow> environ" where
  "load_dotenv override dotenv environ = (if override then environ ++ dotenv else dotenv ++ environ)"

definition reload_environ :: "environ \<Rightarrow> environ \<Rightarrow> environ" where
  "reload_environ environ dotenv =
     (let runtime = environ (u ''CORAL_ORCHESTRATION_RUNTIME'')
      in if runtime = None then load_dotenv True dotenv environ else environ)"

record server_params =
  url :: ustr
  timeout :: nat
  sse_read_timeout :: nat
  transport :: ustr

datatype bootstrap_action = Print ustr | LogConnecting ustr | Connect server_params

datatype bootstrap_error = UnicodeEncodeError | AdapterRaised py_raise

text \<open>
  Lines 43 to 55: the two messages, then \<open>MCPServerAdapter(server_params)\<close>, an external
  call that returns the tools or raises. \<open>print\<close> and the logger are recorded as actions
  and do not fail.
\<close>

definition open_session ::
    "ustr \<Rightarrow> (server_params \<Rightarrow> py_raise + 'tools)
       \<Rightarrow> bootstrap_action list \<times> (bootstrap_error + 'tools)" where
  "open_session CORAL_SERVER_URL MCPServerAdapter =
     (let message = u ''Connecting to Coral Server: '' @ CORAL_SERVER_URL;
          server_params = \<lparr>url = CORAL_SERVER_URL, timeout = 600, sse_read_timeout = 600,
                             transport = u ''sse''\<rparr>
      in ([Print message, LogConnecting message, Connect server_params],
          case MCPServerAdapter server_params of
            Inl raised \<Rightarrow> Inl (AdapterRaised raised)
          | Inr tools \<Rightarrow> Inr tools))"

definition setup_mcp_tools ::
    "environ \<Rightarrow> environ \<Rightarrow> (server_params \<Rightarrow> py_raise + 'tools)
       \<Rightarrow> bootstrap_action list \<times> (bootstrap_error + 'tools)" where
  "setup_mcp_tools environ dotenv MCPServerAdapter =
     (let environ = reload_environ environ dotenv;
          base_url = environ (u ''CORAL_SSE_URL'');
          agent_id = environ (u ''CORAL_AGENT_ID'')
      in case coral_server_url base_url agent_id of
           None \<Rightarrow> ([], Inl UnicodeEncodeError)
         | Some CORAL_SERVER_URL \<Rightarrow> open_session CORAL_SERVER_URL MCPServerAdapter)"

text \<open>An adapter that connects, for concrete runs.\<close>

definition adapter_ok :: "server_params \<Rightarrow> py_raise + unit" where
  "adapter_ok params = Inr ()"

subsection \<open>Decoders used in the proofs\<close>

text \<open>
  \<open>decode_first\<close> reads the first code point back from a UTF-8 byte sequence, and
  \<open>unquote_first\<close> the first byte back from quoted text. \<open>plus_quoter\<close> is what
  \<open>quote_plus\<close> with \<open>safe=''\<close> does to one byte, in both of its branches.
\<close>

definition decode_first :: "nat list \<Rightarrow> nat" where
  "decode_first bs =
     (case bs of
        [] \<Rightarrow> 0
      | b0 # r0 \<Rightarrow>
          if b0 < 0x80 then b0
          else (case r0 of
            [] \<Rightarrow> 0
          | b1 # r1 \<Rightarrow>
              if b0 < 0xE0 then (b0 - 0xC0) * 0x40 + (b1 - 0x80)
              else (case r1 of
                [] \<Rightarrow> 0
              | b2 # r2 \<Rightarrow>
                  if b0 < 0xF0 then (b0 - 0xE0) * 0x1000 + (b1 - 0x80) * 0x40 + (b2 - 0x80)
                  else (case r2 of
                    [] \<Rightarrow> 0
                  | b3 # r3 \<Rightarrow>
                      (b0 - 0xF0) * 0x40000 + (b1 - 0x80) * 0x1000
                        + (b2 - 0x80) * 0x40 + (b3 - 0x80)))))"

definition plus_quoter :: "nat \<Rightarrow> ustr" where
  "plus_quoter b =
     (if b = 32 then [43]
      else if b \<in> set always_safe then [b]
      else [37, hex_digit (b div 16), hex_digit (b mod 16)])"

definition unhex :: "nat \<Rightarrow> nat" where
  "unhex h = (if h < 58 then h - 48 else h - 55)"

definition unquote_first :: "ustr \<Rightarrow> nat" where
  "unquote_first cs =
     (case cs of
        [] \<Rightarrow> 0
      | c # r \<Rightarrow>
          if c = 43 then 32
          else if c = 37 then (case r of h1 # h2 # r' \<Rightarrow> 16 * unhex h1 + unhex h2 | _ \<Rightarrow> 0)
          else c)"

subsection \<open>URL encoding as the specification means it\<close>

text \<open>
  What "URL-encoded" says of a query value, written without the library's code: the
  value is taken as UTF-8 bytes; a space becomes \<open>+\<close>; the unreserved characters
  (letters, digits, \<open>-\<close>, \<open>.\<close>, \<open>_\<close>, \<open>~\<close>) stay; every other byte becomes \<open>%\<close> and its
  two upper-case hexadecimal digits. The theorems compare \<open>quote_plus\<close> with it.
\<close>

definition unreserved :: "nat \<Rightarrow> bool" where
  "unreserved b \<longleftrightarrow>
     (65 \<le> b \<and> b \<le> 90) \<or> (97 \<le> b \<and> b \<le> 122) \<or> (48 \<le> b \<and> b \<le> 57)
       \<or> b = 45 \<or> b = 46 \<or> b = 95 \<or> b = 126"

definition percent_encoded :: "nat \<Rightarrow> ustr" where
  "percent_encoded b =
     [37, of_char (''0123456789ABCDEF'' ! (b div 16)), of_char (''0123456789ABCDEF'' ! (b mod 16))]"

definition form_urlencoded_byte :: "nat \<Rightarrow> ustr" where
  "form_urlencoded_byte b =
     (if b = 32 then [43] else if unreserved b then [b] else percent_encoded b)"

definition form_urlencoded :: "nat list \<Rightarrow> ustr" where
  "form_urlencoded bs = concat (map form_urlencoded_byte bs)"

section \<open>Properties of the memory gateway\<close>

lemma sublist_in_append_right: "sublist xs zs \<Longrightarrow> sublist xs (ys @ zs)"
  unfolding sublist_def
proof -
  assume "\<exists>ps ss. zs = ps @ xs @ ss"
  then obtain ps ss where "zs = ps @ xs @ ss" by blast
  then have "ys @ zs = (ys @ ps) @ xs @ ss" by simp
  then show "\<exists>ps ss. ys @ zs = ps @ xs @ ss" by blast
qed

lemma sublist_in_append_left: "sublist xs ys \<Longrightarrow> sublist xs (ys @ zs)"
  unfolding sublist_def
proof -
  assume "\<exists>ps ss. ys = ps @ xs @ ss"
  then obtain ps ss where "ys = ps @ xs @ ss" by blast
  then have "ys @ zs = ps @ xs @ (ss @ zs)" by simp
  then show "\<exists>ps ss. ys @ zs = ps @ xs @ ss" by blast
qed

lemma error_in_store_text: "sublist (u ''Error'') (u '' Error storing in memory: '')"
proof -
  have "u '' Error storing in memory: '' = u '' '' @ u ''Error'' @ u '' storing in memory: ''"
    by (simp add: u_def)
  then show ?thesis by (simp only: sublist_appendI)
qed

lemma error_in_search_text: "sublist (u ''Error'') (u '' Error searching memories: '')"
proof -
  have "u '' Error searching memories: '' = u '' '' @ u ''Error'' @ u '' searching memories: ''"
    by (simp add: u_def)
  then show ?thesis by (simp only: sublist_appendI)
qed

text \<open>
  Claim C1. When the client call made by \<open>store_user_request_in_mem0\<close> or by
  \<open>search_mem0_memories\<close> raises an \<open>Exception\<close> with text \<open>e\<close>, the tool returns a
  string (it does not raise) that contains the word \<open>Error\<close> and the text \<open>e\<close>.
  The exceptions meant are the instances of \<open>Exception\<close>, which is what the handler
  names; \<open>KeyboardInterrupt\<close> and the other classes outside \<open>Exception\<close> pass
  through both tools, as the definitions show.
\<close>

theorem gateway_error_string:
  "(client (Add [[(u ''role'', u ''user''), (u ''content'', request)]] (u ''reddit_user''))
      = Inl (Exception e)
    \<longrightarrow> (\<exists>s. snd (store_user_request_in_mem0 client request) = Inr s
            \<and> sublist (u ''Error'') s \<and> sublist e s))
   \<and> (client (Search query (u ''reddit_user'')) = Inl (Exception e)
    \<longrightarrow> (\<exists>s. snd (search_mem0_memories client fmt query) = Inr s
            \<and> sublist (u ''Error'') s \<and> sublist e s))"
proof (intro conjI impI)
  assume raised:
    "client (Add [[(u ''role'', u ''user''), (u ''content'', request)]] (u ''reddit_user''))
       = Inl (Exception e)"
  let ?s = "[0x274C] @ u '' Error storing in memory: '' @ e"
  have ret: "snd (store_user_request_in_mem0 client request) = Inr ?s"
    unfolding store_user_request_in_mem0_def Let_def snd_conv raised by simp
  have mark: "sublist (u ''Error'') ?s"
    by (intro sublist_in_append_right sublist_in_append_left error_in_store_text)
  have "sublist e ?s"
    by (intro sublist_in_append_right sublist_order.order_refl)
  with ret mark show "\<exists>s. snd (store_user_request_in_mem0 client request) = Inr s
            \<and> sublist (u ''Error'') s \<and> sublist e s" by blast
next
  assume raised: "client (Search query (u ''reddit_user'')) = Inl (Exception e)"
  let ?s = "[0x1F50D] @ u '' Error searching memories: '' @ e"
  have ret: "snd (search_mem0_memories client fmt query) = Inr ?s"
    unfolding search_mem0_memories_def Let_def snd_conv raised by simp
  have mark: "sublist (u ''Error'') ?s"
    by (intro sublist_in_append_right sublist_in_append_left error_in_search_text)
  have "sublist e ?s"
    by (intro sublist_in_append_right sublist_order.order_refl)
  with ret mark show "\<exists>s. snd (search_mem0_memories client fmt query) = Inr s
            \<and> sublist (u ''Error'') s \<and> sublist e s" by blast
qed

text \<open>The scenario of the specification: \<open>record("hello")\<close> and a search, with a
  client that raises \<open>ConnectionError("down")\<close>.\<close>

theorem gateway_error_string_witness:
  "(\<exists>s. snd (store_user_request_in_mem0 client_down (u ''hello'')) = Inr s
            \<and> sublist (u ''Error'') s \<and> sublist (u ''down'') s)
   \<and> (\<exists>s. snd (search_mem0_memories client_down (\<lambda>m. []) (u ''cats'')) = Inr s
            \<and> sublist (u ''Error'') s \<and> sublist (u ''down'') s)"
  using gateway_error_string [of client_down "u ''hello''" "u ''down''" "u ''cats''" "\<lambda>m. []"]
  unfolding client_down_def by simp

text \<open>
  Claim C3, as stated, fails. \<open>store_user_request_in_mem0\<close> does not throw either
  when the client raises an \<open>Exception\<close>, and the string it returns then holds the
  exception's text, not the request: with the request \<open>hello\<close> and a client raising
  \<open>ConnectionError("down")\<close> the result contains neither \<open>hello\<close> nor its first
  character.
\<close>

theorem record_prefix_counterexample:
  "snd (store_user_request_in_mem0 client_down (u ''hello''))
     = Inr ([0x274C] @ u '' Error storing in memory: down'')
   \<and> \<not> sublist (take 50 (u ''hello'')) ([0x274C] @ u '' Error storing in memory: down'')
   \<and> \<not> sublist (take 1 (u ''hello'')) ([0x274C] @ u '' Error storing in memory: down'')"
  by (simp add: store_user_request_in_mem0_def client_down_def u_def sublist_code)

text \<open>
  Claim C3, amended. When the client call made by \<open>store_user_request_in_mem0\<close>
  returns, the tool returns the success message, which contains \<open>user_request[:50]\<close>:
  a prefix of the request of length \<open>min(50, len(user_request))\<close>.
\<close>

theorem record_success_prefix:
  assumes "client (Add [[(u ''role'', u ''user''), (u ''content'', request)]] (u ''reddit_user''))
             = Inr result"
  shows "snd (store_user_request_in_mem0 client request)
           = Inr ([0x2728] @ u '' Successfully stored user request in memory: ''
                    @ take 50 request @ u ''...'')
         \<and> sublist (take 50 request)
              ([0x2728] @ u '' Successfully stored user request in memory: ''
                 @ take 50 request @ u ''...'')
         \<and> prefix (take 50 request) request
         \<and> length (take 50 request) = min 50 (length request)"
proof (intro conjI)
  show "snd (store_user_request_in_mem0 client request)
           = Inr ([0x2728] @ u '' Successfully stored user request in memory: ''
                    @ take 50 request @ u ''...'')"
    unfolding store_user_request_in_mem0_def Let_def snd_conv assms by simp
  show "sublist (take 50 request)
              ([0x2728] @ u '' Successfully stored user request in memory: ''
                 @ take 50 request @ u ''...'')"
    by (intro sublist_in_append_right sublist_in_append_left sublist_order.order_refl)
  show "prefix (take 50 request) request" by (rule take_is_prefix)
  show "length (take 50 request) = min 50 (length request)" by simp
qed

text \<open>A request of 61 characters is cut to its first 50.\<close>

theorem record_success_prefix_witness:
  "snd (store_user_request_in_mem0 client_ok
          (u ''Write five posts about hiking in the Alps during early autumn''))
     = Inr ([0x2728] @ u '' Successfully stored user request in memory: ''
              @ u ''Write five posts about hiking in the Alps during e'' @ u ''...'')
   \<and> length (u ''Write five posts about hiking in the Alps during e'') = 50"
  using record_success_prefix [of client_ok
          "u ''Write five posts about hiking in the Alps during early autumn''" "()"]
  by (simp add: client_ok_def u_def)

text \<open>
  Claim C7. \<open>store_user_request_in_mem0\<close> makes exactly one client call, \<open>add\<close> of the
  one-message transcript \<open>[{"role": "user", "content": request}]\<close> with
  \<open>user_id="reddit_user"\<close>; \<open>search_mem0_memories\<close> makes exactly one call, \<open>search\<close>
  of the query with the same \<open>user_id\<close>. This holds for every client and input.
\<close>

theorem gateway_calls:
  "fst (store_user_request_in_mem0 client request)
     = [Add [[(u ''role'', u ''user''), (u ''content'', request)]] (u ''reddit_user'')]
   \<and> fst (search_mem0_memories client fmt query) = [Search query (u ''reddit_user'')]"
  by (simp add: store_user_request_in_mem0_def search_mem0_memories_def Let_def)

section \<open>Properties of the supervisor loop\<close>

text \<open>If the loop is still running after the cycles \<open>pre\<close>, a longer run continues
  from there.\<close>

lemma main_loop_append:
  "snd (main_loop pre) = Running \<Longrightarrow>
   main_loop (pre @ rest) = (fst (main_loop pre) @ fst (main_loop rest), snd (main_loop rest))"
proof (induction pre)
  case Nil
  show ?case by simp
next
  case (Cons c pre)
  obtain tr fl where it: "iteration c = (tr, fl)" by (cases "iteration c")
  obtain tr' st where ml: "main_loop pre = (tr', st)" by (cases "main_loop pre")
  from Cons.prems it ml have fl: "fl = Next" and st: "st = Running"
    by (cases fl; simp)+
  from Cons.IH ml st
  have "main_loop (pre @ rest) = (tr' @ fst (main_loop rest), snd (main_loop rest))" by simp
  with it fl ml show ?case by simp
qed

lemma main_loop_Next:
  "iteration c = (tr, Next) \<Longrightarrow>
   main_loop (c # cs) = (tr @ fst (main_loop cs), snd (main_loop cs))"
  by (simp add: case_prod_unfold)

lemma main_loop_Break:
  "iteration c = (tr, Break) \<Longrightarrow> main_loop (c # cs) = (tr, Stopped)"
  by simp

lemma main_loop_Raise:
  "iteration c = (tr, Raise x) \<Longrightarrow> main_loop (c # cs) = (tr, Propagated x)"
  by simp

lemma iteration_success:
  "kickoff c = Returns \<Longrightarrow> sleep1 c = Returns \<Longrightarrow>
   iteration c = ([LogInfo starting, Kickoff, Sleep 1], Next)"
  by (simp add: iteration_def try_body_def)

lemma iteration_failure:
  "kickoff c = Raises (Exception e) \<Longrightarrow> sleep5 c = Returns \<Longrightarrow>
   iteration c =
     ([LogInfo starting, Kickoff, LogError (u ''Error in agent loop: '' @ e), Sleep 5], Next)"
  by (simp add: iteration_def try_body_def)

lemma iteration_interrupt:
  "snd (try_body c) = Raises KeyboardInterrupt \<Longrightarrow>
   iteration c = (fst (try_body c) @ [LogInfo shutting_down], Break)"
  by (cases "try_body c") (simp add: iteration_def)

lemma iteration_handler_raises:
  "snd (try_body c) = Raises (Exception e) \<Longrightarrow> sleep5 c = Raises x \<Longrightarrow>
   iteration c = (fst (try_body c) @ [LogError (u ''Error in agent loop: '' @ e), Sleep 5],
                  Raise x)"
  by (cases "try_body c") (simp add: iteration_def)

lemma kickoff_count_try_body:
  "length (filter (\<lambda>a. a = Kickoff) (fst (try_body c))) = 1"
  by (cases "kickoff c") (simp_all add: try_body_def)

lemma kickoff_count_iteration:
  "length (filter (\<lambda>a. a = Kickoff) (fst (iteration c))) = 1"
proof (cases "try_body c")
  case (Pair tr out)
  with kickoff_count_try_body [of c]
  have k: "length (filter (\<lambda>a. a = Kickoff) tr) = 1" by simp
  show ?thesis
  proof (cases out)
    case Returns
    with Pair k show ?thesis by (simp add: iteration_def)
  next
    case (Raises x)
    with Pair k show ?thesis by (cases x) (simp_all add: iteration_def)
  qed
qed

lemma main_loop_all_success:
  "\<forall>p \<in> set ps. kickoff p = Returns \<and> sleep1 p = Returns \<Longrightarrow>
   main_loop ps = (concat (map (\<lambda>p. [LogInfo starting, Kickoff, Sleep 1]) ps), Running)"
proof (induction ps)
  case Nil
  show ?case by simp
next
  case (Cons p ps)
  from Cons.prems have p: "kickoff p = Returns" "sleep1 p = Returns" by simp_all
  from Cons.prems have "\<forall>p \<in> set ps. kickoff p = Returns \<and> sleep1 p = Returns" by simp
  then have ih: "main_loop ps = (concat (map (\<lambda>p. [LogInfo starting, Kickoff, Sleep 1]) ps), Running)"
    by (rule Cons.IH)
  have "main_loop (p # ps) = ([LogInfo starting, Kickoff, Sleep 1] @ fst (main_loop ps), snd (main_loop ps))"
    by (rule main_loop_Next [OF iteration_success [OF p]])
  then show ?case unfolding ih by simp
qed

lemma main_loop_recoverable:
  "\<forall>p \<in> set cs. (kickoff p = Returns \<and> sleep1 p = Returns)
                \<or> (\<exists>e. kickoff p = Raises (Exception e) \<and> sleep5 p = Returns) \<Longrightarrow>
   snd (main_loop cs) = Running
     \<and> length (filter (\<lambda>a. a = Kickoff) (fst (main_loop cs))) = length cs"
proof (induction cs)
  case Nil
  show ?case by simp
next
  case (Cons p ps)
  from Cons.prems have "(kickoff p = Returns \<and> sleep1 p = Returns)
                \<or> (\<exists>e. kickoff p = Raises (Exception e) \<and> sleep5 p = Returns)" by simp
  then have "\<exists>tr. iteration p = (tr, Next)"
    using iteration_success [of p] iteration_failure [of p] by blast
  then obtain tr where it: "iteration p = (tr, Next)" by blast
  have k: "length (filter (\<lambda>a. a = Kickoff) tr) = 1"
    using kickoff_count_iteration [of p] unfolding it by simp
  from Cons.prems have "\<forall>p \<in> set ps. (kickoff p = Returns \<and> sleep1 p = Returns)
                \<or> (\<exists>e. kickoff p = Raises (Exception e) \<and> sleep5 p = Returns)" by simp
  then have ih: "snd (main_loop ps) = Running
     \<and> length (filter (\<lambda>a. a = Kickoff) (fst (main_loop ps))) = length ps"
    by (rule Cons.IH)
  have "main_loop (p # ps) = (tr @ fst (main_loop ps), snd (main_loop ps))"
    by (rule main_loop_Next [OF it])
  then show ?case using ih k by simp
qed

text \<open>
  Claim C2. In a run where the cycle call raises an \<open>Exception\<close> once, in the pass
  after the passes \<open>pre\<close>, and returns in all other passes (the delays return), the loop
  logs the error, calls \<open>sleep(5)\<close> and goes on with the next passes, each calling the
  cycle again; it is still running however long the run is. More generally, in every run
  whose passes either succeed or raise an \<open>Exception\<close> from the cycle call, with no
  bound on how many raise, the loop is still running at the end and has called the cycle
  once per pass: there is no retry limit. The exceptions meant are the instances of
  \<open>Exception\<close>; the other classes leave the loop, as \<open>iteration\<close> shows.
\<close>

theorem supervisor_retries:
  assumes pre: "\<forall>p \<in> set pre. kickoff p = Returns \<and> sleep1 p = Returns"
    and post: "\<forall>p \<in> set post. kickoff p = Returns \<and> sleep1 p = Returns"
    and fail: "kickoff c = Raises (Exception e)" "sleep5 c = Returns"
    and env: "\<forall>p \<in> set cs. (kickoff p = Returns \<and> sleep1 p = Returns)
                \<or> (\<exists>e. kickoff p = Raises (Exception e) \<and> sleep5 p = Returns)"
  shows "main_loop (pre @ c # post)
           = (concat (map (\<lambda>p. [LogInfo starting, Kickoff, Sleep 1]) pre)
                @ [LogInfo starting, Kickoff, LogError (u ''Error in agent loop: '' @ e), Sleep 5]
                @ concat (map (\<lambda>p. [LogInfo starting, Kickoff, Sleep 1]) post),
              Running)
         \<and> snd (main_loop cs) = Running
         \<and> length (filter (\<lambda>a. a = Kickoff) (fst (main_loop cs))) = length cs"
proof -
  note ok_pre = main_loop_all_success [OF pre]
  note ok_post = main_loop_all_success [OF post]
  have "main_loop (c # post)
      = ([LogInfo starting, Kickoff, LogError (u ''Error in agent loop: '' @ e), Sleep 5]
           @ fst (main_loop post), snd (main_loop post))"
    by (rule main_loop_Next [OF iteration_failure [OF fail]])
  then have one: "main_loop (c # post)
      = ([LogInfo starting, Kickoff, LogError (u ''Error in agent loop: '' @ e), Sleep 5]
           @ concat (map (\<lambda>p. [LogInfo starting, Kickoff, Sleep 1]) post), Running)"
    unfolding ok_post by simp
  have "snd (main_loop pre) = Running" unfolding ok_pre by simp
  then have "main_loop (pre @ c # post)
     = (fst (main_loop pre) @ fst (main_loop (c # post)), snd (main_loop (c # post)))"
    by (rule main_loop_append)
  then have first: "main_loop (pre @ c # post)
           = (concat (map (\<lambda>p. [LogInfo starting, Kickoff, Sleep 1]) pre)
                @ [LogInfo starting, Kickoff, LogError (u ''Error in agent loop: '' @ e), Sleep 5]
                @ concat (map (\<lambda>p. [LogInfo starting, Kickoff, Sleep 1]) post),
              Running)"
    unfolding ok_pre one by simp
  from first main_loop_recoverable [OF env] show ?thesis by (rule conjI)
qed

text \<open>The scenario of the specification: the cycle raises once and then succeeds;
  and a run of three failures in a row.\<close>

theorem supervisor_retries_witness:
  "main_loop [ok_cycle, failing_cycle (u ''timed out''), ok_cycle]
     = ([LogInfo starting, Kickoff, Sleep 1,
         LogInfo starting, Kickoff, LogError (u ''Error in agent loop: timed out''), Sleep 5,
         LogInfo starting, Kickoff, Sleep 1], Running)
   \<and> snd (main_loop [failing_cycle (u ''a''), failing_cycle (u ''b''), failing_cycle (u ''c'')])
       = Running
   \<and> length (filter (\<lambda>a. a = Kickoff)
        (fst (main_loop [failing_cycle (u ''a''), failing_cycle (u ''b''), failing_cycle (u ''c'')])))
       = 3"
  using supervisor_retries [of "[ok_cycle]" "[ok_cycle]" "failing_cycle (u ''timed out'')"
      "u ''timed out''" "[failing_cycle (u ''a''), failing_cycle (u ''b''), failing_cycle (u ''c'')]"]
  by (simp add: ok_cycle_def failing_cycle_def u_def)

text \<open>
  Claim C8. In a pass that the loop reaches and whose cycle call returns, the next
  action after the call is \<open>sleep(1)\<close>; when that delay returns, the next pass starts
  after it.
\<close>

theorem success_then_yield:
  assumes reach: "snd (main_loop pre) = Running"
    and fin: "kickoff c = Returns"
  shows "(\<exists>rest. fst (main_loop (pre @ c # cs))
            = fst (main_loop pre) @ [LogInfo starting, Kickoff, Sleep 1] @ rest)
         \<and> (sleep1 c = Returns \<longrightarrow>
              main_loop (pre @ c # cs)
                = (fst (main_loop pre) @ [LogInfo starting, Kickoff, Sleep 1] @ fst (main_loop cs),
                   snd (main_loop cs)))"
proof (intro conjI impI)
  have tb: "try_body c = ([LogInfo starting, Kickoff, Sleep 1], sleep1 c)"
    using fin by (simp add: try_body_def)
  have "\<exists>rest. fst (iteration c) = [LogInfo starting, Kickoff, Sleep 1] @ rest"
  proof (cases "sleep1 c")
    case Returns
    with tb show ?thesis by (simp add: iteration_def)
  next
    case (Raises x)
    with tb show ?thesis by (cases x) (simp_all add: iteration_def)
  qed
  then obtain r where r: "fst (iteration c) = [LogInfo starting, Kickoff, Sleep 1] @ r" by blast
  obtain tr fl where it: "iteration c = (tr, fl)" by (cases "iteration c")
  with r have tr: "tr = [LogInfo starting, Kickoff, Sleep 1] @ r" by simp
  have "\<exists>rest. fst (main_loop (c # cs)) = [LogInfo starting, Kickoff, Sleep 1] @ rest"
  proof (cases fl)
    case Next
    with it have "iteration c = (tr, Next)" by simp
    then have "main_loop (c # cs) = (tr @ fst (main_loop cs), snd (main_loop cs))"
      by (rule main_loop_Next)
    then show ?thesis unfolding tr by simp
  next
    case Break
    with it have "iteration c = (tr, Break)" by simp
    then have "main_loop (c # cs) = (tr, Stopped)" by (rule main_loop_Break)
    then show ?thesis unfolding tr by simp
  next
    case (Raise x)
    with it have "iteration c = (tr, Raise x)" by simp
    then have "main_loop (c # cs) = (tr, Propagated x)" by (rule main_loop_Raise)
    then show ?thesis unfolding tr by simp
  qed
  then obtain rest where "fst (main_loop (c # cs)) = [LogInfo starting, Kickoff, Sleep 1] @ rest"
    by blast
  then have "fst (main_loop (pre @ c # cs))
            = fst (main_loop pre) @ [LogInfo starting, Kickoff, Sleep 1] @ rest"
    unfolding main_loop_append [OF reach] by simp
  then show "\<exists>rest. fst (main_loop (pre @ c # cs))
            = fst (main_loop pre) @ [LogInfo starting, Kickoff, Sleep 1] @ rest" by blast
next
  assume "sleep1 c = Returns"
  with fin have "main_loop (c # cs)
     = ([LogInfo starting, Kickoff, Sleep 1] @ fst (main_loop cs), snd (main_loop cs))"
    by (intro main_loop_Next iteration_success)
  then show "main_loop (pre @ c # cs)
                = (fst (main_loop pre) @ [LogInfo starting, Kickoff, Sleep 1] @ fst (main_loop cs),
                   snd (main_loop cs))"
    unfolding main_loop_append [OF reach] by simp
qed

theorem success_then_yield_witness:
  "snd (main_loop [ok_cycle]) = Running
   \<and> main_loop [ok_cycle, ok_cycle, ok_cycle]
       = ([LogInfo starting, Kickoff, Sleep 1,
           LogInfo starting, Kickoff, Sleep 1,
           LogInfo starting, Kickoff, Sleep 1], Running)"
  using success_then_yield [of "[ok_cycle]" ok_cycle "[ok_cycle]"]
  by (simp add: ok_cycle_def iteration_def try_body_def)

text \<open>
  What the first handler does: in a pass that the loop reaches, a \<open>KeyboardInterrupt\<close>
  raised inside the \<open>try\<close>, by the cycle call or by the delay after it, makes the loop
  log the shutdown message and stop.
\<close>

lemma interrupt_stops_loop:
  assumes reach: "snd (main_loop pre) = Running"
    and intr: "kickoff c = Raises KeyboardInterrupt
              \<or> (kickoff c = Returns \<and> sleep1 c = Raises KeyboardInterrupt)"
  shows "main_loop (pre @ c # cs)
           = (fst (main_loop pre) @ fst (try_body c) @ [LogInfo shutting_down], Stopped)
         \<and> (kickoff c = Raises KeyboardInterrupt
              \<longrightarrow> fst (try_body c) = [LogInfo starting, Kickoff])
         \<and> (kickoff c = Returns \<longrightarrow> fst (try_body c) = [LogInfo starting, Kickoff, Sleep 1])"
proof -
  from intr have "snd (try_body c) = Raises KeyboardInterrupt"
    by (auto simp: try_body_def)
  then have "iteration c = (fst (try_body c) @ [LogInfo shutting_down], Break)"
    by (rule iteration_interrupt)
  then have "main_loop (c # cs) = (fst (try_body c) @ [LogInfo shutting_down], Stopped)"
    by (rule main_loop_Break)
  then have "main_loop (pre @ c # cs)
           = (fst (main_loop pre) @ fst (try_body c) @ [LogInfo shutting_down], Stopped)"
    unfolding main_loop_append [OF reach] by simp
  moreover have "kickoff c = Raises KeyboardInterrupt
              \<longrightarrow> fst (try_body c) = [LogInfo starting, Kickoff]"
    by (simp add: try_body_def)
  moreover have "kickoff c = Returns \<longrightarrow> fst (try_body c) = [LogInfo starting, Kickoff, Sleep 1]"
    by (simp add: try_body_def)
  ultimately show ?thesis by blast
qed

text \<open>
  Claim C4 fails on the code for the idle delay. An interrupt signal that arrives
  during \<open>await asyncio.sleep(1)\<close> reaches \<open>main\<close> as \<open>asyncio.CancelledError\<close>, which
  neither \<open>except KeyboardInterrupt\<close> nor \<open>except Exception\<close> catches: in a run of a
  successful pass followed by a pass interrupted in its delay, the exception leaves the
  loop, the run does not end in \<open>Stopped\<close>, and the shutdown message is not logged.
\<close>

theorem interrupt_during_idle_delay:
  "main_loop [ok_cycle,
              \<lparr>kickoff = Returns, sleep1 = sigint_during_await, sleep5 = Returns\<rparr>,
              ok_cycle]
     = ([LogInfo starting, Kickoff, Sleep 1, LogInfo starting, Kickoff, Sleep 1],
        Propagated OtherBaseException)
   \<and> snd (main_loop [ok_cycle,
              \<lparr>kickoff = Returns, sleep1 = sigint_during_await, sleep5 = Returns\<rparr>,
              ok_cycle]) \<noteq> Stopped
   \<and> LogInfo shutting_down \<notin> set (fst (main_loop [ok_cycle,
              \<lparr>kickoff = Returns, sleep1 = sigint_during_await, sleep5 = Returns\<rparr>,
              ok_cycle]))"
  by (simp add: ok_cycle_def sigint_during_await_def iteration_def try_body_def starting_def
        shutting_down_def u_def)

text \<open>
  Claim C9. When the \<open>try\<close> body of a reached pass ends with an \<open>Exception\<close> and the
  \<open>sleep(5)\<close> of the handler raises \<open>KeyboardInterrupt\<close>, the interrupt leaves the
  loop: the run ends in \<open>Propagated KeyboardInterrupt\<close>, not in \<open>Stopped\<close>, and the
  shutdown message is not logged in that pass.
\<close>

theorem interrupt_in_handler_propagates:
  assumes reach: "snd (main_loop pre) = Running"
    and failed: "snd (try_body c) = Raises (Exception e)"
    and intr: "sleep5 c = Raises KeyboardInterrupt"
  shows "main_loop (pre @ c # cs)
           = (fst (main_loop pre) @ fst (try_body c)
                @ [LogError (u ''Error in agent loop: '' @ e), Sleep 5],
              Propagated KeyboardInterrupt)
         \<and> snd (main_loop (pre @ c # cs)) \<noteq> Stopped"
proof -
  have "iteration c = (fst (try_body c) @ [LogError (u ''Error in agent loop: '' @ e), Sleep 5],
                  Raise KeyboardInterrupt)"
    using failed intr by (rule iteration_handler_raises)
  then have "main_loop (c # cs)
     = (fst (try_body c) @ [LogError (u ''Error in agent loop: '' @ e), Sleep 5],
        Propagated KeyboardInterrupt)"
    by (rule main_loop_Raise)
  then have "main_loop (pre @ c # cs)
           = (fst (main_loop pre) @ fst (try_body c)
                @ [LogError (u ''Error in agent loop: '' @ e), Sleep 5],
              Propagated KeyboardInterrupt)"
    unfolding main_loop_append [OF reach] by simp
  then show ?thesis by simp
qed

theorem interrupt_in_handler_propagates_witness:
  "main_loop [ok_cycle,
              \<lparr>kickoff = Raises (Exception (u ''boom'')), sleep1 = Returns,
                sleep5 = Raises KeyboardInterrupt\<rparr>,
              ok_cycle]
     = ([LogInfo starting, Kickoff, Sleep 1,
         LogInfo starting, Kickoff, LogError (u ''Error in agent loop: boom''), Sleep 5],
        Propagated KeyboardInterrupt)"
  using interrupt_in_handler_propagates [of "[ok_cycle]"
          "\<lparr>kickoff = Raises (Exception (u ''boom'')), sleep1 = Returns,
                sleep5 = Raises KeyboardInterrupt\<rparr>" "u ''boom''" "[ok_cycle]"]
  by (simp add: ok_cycle_def iteration_def try_body_def u_def)

section \<open>Properties of the session bootstrap\<close>

subsection \<open>UTF-8 encoding can be read back\<close>

lemma decode_first_1: "c < 0x80 \<Longrightarrow> decode_first (c # r) = c"
  by (simp add: decode_first_def)

lemma decode_first_2:
  assumes "0x80 \<le> c" "c < 0x800"
  shows "decode_first ((0xC0 + c div 0x40) # (0x80 + c mod 0x40) # r) = (c::nat)"
proof -
  have "c div 0x40 < 0x20" using assms by arith
  then have "\<not> 0xC0 + c div 0x40 < 0x80" "0xC0 + c div 0x40 < 0xE0" by arith+
  then show ?thesis by (simp add: decode_first_def)
qed

lemma recompose3: "(c::nat) div 0x1000 * 0x1000 + c div 0x40 mod 0x40 * 0x40 + c mod 0x40 = c"
proof -
  define q where "q = c div 0x40"
  define a where "a = q div 0x40"
  define b where "b = q mod 0x40"
  have a': "c div 0x1000 = a"
    unfolding a_def q_def by (simp add: div_mult2_eq [symmetric])
  have "a * 0x40 + b = q" unfolding a_def b_def by (rule div_mult_mod_eq)
  moreover have "q * 0x40 + c mod 0x40 = c" unfolding q_def by (rule div_mult_mod_eq)
  ultimately have "a * 0x1000 + b * 0x40 + c mod 0x40 = c" by linarith
  then show ?thesis unfolding a' unfolding b_def q_def .
qed

lemma recompose4:
  "(c::nat) div 0x40000 * 0x40000 + c div 0x1000 mod 0x40 * 0x1000
     + c div 0x40 mod 0x40 * 0x40 + c mod 0x40 = c"
proof -
  define q where "q = c div 0x1000"
  have q': "c div 0x40000 = q div 0x40"
    unfolding q_def by (simp add: div_mult2_eq [symmetric])
  have "q div 0x40 * 0x40 + q mod 0x40 = q" by (rule div_mult_mod_eq)
  moreover have "q * 0x1000 + c div 0x40 mod 0x40 * 0x40 + c mod 0x40 = c"
    unfolding q_def by (rule recompose3)
  ultimately have "q div 0x40 * 0x40000 + q mod 0x40 * 0x1000
     + c div 0x40 mod 0x40 * 0x40 + c mod 0x40 = c" by linarith
  then show ?thesis unfolding q' unfolding q_def .
qed

lemma decode_first_three:
  "0xE0 \<le> b0 \<Longrightarrow> b0 < 0xF0 \<Longrightarrow>
   decode_first (b0 # b1 # b2 # r) = (b0 - 0xE0) * 0x1000 + (b1 - 0x80) * 0x40 + (b2 - 0x80)"
  by (simp add: decode_first_def)

lemma decode_first_four:
  "0xF0 \<le> b0 \<Longrightarrow>
   decode_first (b0 # b1 # b2 # b3 # r)
     = (b0 - 0xF0) * 0x40000 + (b1 - 0x80) * 0x1000 + (b2 - 0x80) * 0x40 + (b3 - 0x80)"
  by (simp add: decode_first_def)

lemma decode_first_3:
  assumes "c < 0x10000"
  shows "decode_first ((0xE0 + c div 0x1000) # (0x80 + c div 0x40 mod 0x40)
           # (0x80 + c mod 0x40) # r) = (c::nat)"
proof -
  have "c div 0x1000 < 0x10" using assms by arith
  then have b: "0xE0 \<le> 0xE0 + c div 0x1000" "0xE0 + c div 0x1000 < 0xF0" by arith+
  show ?thesis unfolding decode_first_three [OF b]
    using recompose3 [of c] by simp
qed

lemma decode_first_4:
  "decode_first ((0xF0 + c div 0x40000) # (0x80 + c div 0x1000 mod 0x40)
           # (0x80 + c div 0x40 mod 0x40) # (0x80 + c mod 0x40) # r) = c"
proof -
  have b: "0xF0 \<le> 0xF0 + c div 0x40000" by arith
  show ?thesis unfolding decode_first_four [OF b]
    using recompose4 [of c] by simp
qed

lemma encode_utf8_char_cases:
  assumes "encode_utf8_char c = Some bs"
  obtains
    (one) "c < 0x80" "bs = [c]"
  | (two) "0x80 \<le> c" "c < 0x800" "bs = [0xC0 + c div 0x40, 0x80 + c mod 0x40]"
  | (three) "0x800 \<le> c" "c < 0x10000" "c < 0xD800 \<or> 0xDFFF < c"
      "bs = [0xE0 + c div 0x1000, 0x80 + c div 0x40 mod 0x40, 0x80 + c mod 0x40]"
  | (four) "0x10000 \<le> c" "c < 0x110000"
      "bs = [0xF0 + c div 0x40000, 0x80 + c div 0x1000 mod 0x40,
              0x80 + c div 0x40 mod 0x40, 0x80 + c mod 0x40]"
proof -
  consider "c < 0x80" | "0x80 \<le> c" "c < 0x800" | "0x800 \<le> c" "c < 0x10000"
    | "0x10000 \<le> c" "c < 0x110000" | "0x110000 \<le> c"
    by linarith
  then show thesis
  proof cases
    case 1
    with assms have "bs = [c]" by (simp add: encode_utf8_char_def)
    with 1 show thesis by (rule one)
  next
    case 2
    with assms have "bs = [0xC0 + c div 0x40, 0x80 + c mod 0x40]"
      by (simp add: encode_utf8_char_def)
    with 2 show thesis by (rule two)
  next
    case 3
    then have n: "\<not> c < 0x80" "\<not> c < 0x800" by linarith+
    from assms n 3 have "\<not> (0xD800 \<le> c \<and> c \<le> 0xDFFF)"
      by (simp add: encode_utf8_char_def split: if_splits)
    then have s: "c < 0xD800 \<or> 0xDFFF < c" by linarith
    with assms n 3
    have "bs = [0xE0 + c div 0x1000, 0x80 + c div 0x40 mod 0x40, 0x80 + c mod 0x40]"
      by (simp add: encode_utf8_char_def split: if_splits)
    with 3 s show thesis by (rule three)
  next
    case 4
    then have n: "\<not> c < 0x80" "\<not> c < 0x800" "\<not> c < 0x10000" "\<not> (0xD800 \<le> c \<and> c \<le> 0xDFFF)"
      by linarith+
    with assms 4
    have "bs = [0xF0 + c div 0x40000, 0x80 + c div 0x1000 mod 0x40,
              0x80 + c div 0x40 mod 0x40, 0x80 + c mod 0x40]"
      by (simp add: encode_utf8_char_def)
    with 4 show thesis by (rule four)
  next
    case 5
    then have n: "\<not> c < 0x80" "\<not> c < 0x800" "\<not> c < 0x10000" "\<not> (0xD800 \<le> c \<and> c \<le> 0xDFFF)"
       "\<not> c < 0x110000"
      by linarith+
    with assms show thesis by (simp add: encode_utf8_char_def)
  qed
qed

lemma decode_first_encode:
  assumes "encode_utf8_char c = Some bs"
  shows "decode_first (bs @ r) = c"
  using assms
proof (cases rule: encode_utf8_char_cases)
  case one
  then show ?thesis by (simp add: decode_first_1)
next
  case two
  then show ?thesis using decode_first_2 [of c r] by simp
next
  case three
  then show ?thesis using decode_first_3 [of c r] by simp
next
  case four
  then show ?thesis using decode_first_4 [of c r] by simp
qed

lemma encode_utf8_char_bytes:
  assumes "encode_utf8_char c = Some bs"
  shows "bs \<noteq> [] \<and> (\<forall>b \<in> set bs. b < 256) \<and> (32 \<in> set bs \<longleftrightarrow> c = 32)"
  using assms
proof (cases rule: encode_utf8_char_cases)
  case one
  then show ?thesis by simp
next
  case two
  then have "c div 0x40 < 0x20" by arith
  moreover have "c mod 0x40 < 0x40" by simp
  ultimately show ?thesis using two by auto
next
  case three
  then have "c div 0x1000 < 0x10" by arith
  moreover have "c mod 0x40 < 0x40" "c div 0x40 mod 0x40 < 0x40" by simp_all
  ultimately show ?thesis using three by auto
next
  case four
  then have "c div 0x40000 < 0x5" by arith
  moreover have "c mod 0x40 < 0x40" "c div 0x40 mod 0x40 < 0x40" "c div 0x1000 mod 0x40 < 0x40"
    by simp_all
  ultimately show ?thesis using four by auto
qed

lemma concat_map_decodable:
  assumes dec: "\<And>x r. x \<in> A \<Longrightarrow> dec (f x @ r) = x"
    and ne: "\<And>x. x \<in> A \<Longrightarrow> f x \<noteq> []"
  shows "set xs \<subseteq> A \<Longrightarrow> set ys \<subseteq> A \<Longrightarrow>
         concat (map f xs) = concat (map f ys) \<Longrightarrow> xs = ys"
proof (induction xs arbitrary: ys)
  case Nil
  show ?case
  proof (cases ys)
    case Nil
    then show ?thesis by simp
  next
    case (Cons y ys')
    with Nil.prems have "y \<in> A" "f y = []" by simp_all
    with ne show ?thesis by blast
  qed
next
  case (Cons x xs)
  from Cons.prems have x: "x \<in> A" by simp
  show ?case
  proof (cases ys)
    case Nil
    with Cons.prems have "f x = []" by simp
    with ne x show ?thesis by blast
  next
    case (Cons y ys')
    with Cons.prems have y: "y \<in> A" and sub: "set ys' \<subseteq> A" by simp_all
    from Cons.prems Cons
    have eq: "f x @ concat (map f xs) = f y @ concat (map f ys')" by simp
    have "dec (f x @ concat (map f xs)) = x" using x by (rule dec)
    moreover have "dec (f y @ concat (map f ys')) = y" using y by (rule dec)
    ultimately have xy: "x = y" using eq by simp
    with eq have "concat (map f xs) = concat (map f ys')" by simp
    moreover from Cons.prems have "set xs \<subseteq> A" by simp
    ultimately have "xs = ys'" using sub by (intro Cons.IH)
    with xy Cons show ?thesis by simp
  qed
qed

lemma encode_utf8_concat:
  "encode_utf8 s = Some bs \<Longrightarrow>
   (\<forall>c \<in> set s. encode_utf8_char c \<noteq> None)
     \<and> bs = concat (map (\<lambda>c. the (encode_utf8_char c)) s)"
proof (induction s arbitrary: bs)
  case Nil
  then show ?case by simp
next
  case (Cons c s)
  from Cons.prems obtain b rest where
    b: "encode_utf8_char c = Some b" and rest: "encode_utf8 s = Some rest" and bs: "bs = b @ rest"
    by (auto split: option.splits)
  from Cons.IH [OF rest] b bs show ?case by simp
qed

lemma encode_utf8_inj:
  assumes "encode_utf8 s = Some bs" "encode_utf8 t = Some bs"
  shows "s = t"
proof -
  let ?A = "{c. encode_utf8_char c \<noteq> None}"
  let ?f = "\<lambda>c. the (encode_utf8_char c)"
  have dec: "decode_first (?f x @ r) = x" if "x \<in> ?A" for x r
    using that decode_first_encode [of x "?f x" r] by auto
  have ne: "?f x \<noteq> []" if "x \<in> ?A" for x
    using that encode_utf8_char_bytes [of x "?f x"] by auto
  from encode_utf8_concat [OF assms(1)] encode_utf8_concat [OF assms(2)]
  have sub: "set s \<subseteq> ?A" "set t \<subseteq> ?A"
    and eq: "concat (map ?f s) = concat (map ?f t)"
    by auto
  show ?thesis
  proof (rule concat_map_decodable [of ?A decode_first ?f s t])
    show "decode_first (?f x @ r) = x" if "x \<in> ?A" for x r using that by (rule dec)
    show "?f x \<noteq> []" if "x \<in> ?A" for x using that by (rule ne)
  qed (rule sub eq)+
qed

lemma encode_utf8_bytes:
  "encode_utf8 s = Some bs \<Longrightarrow>
   (\<forall>b \<in> set bs. b < 256) \<and> (32 \<in> set bs \<longleftrightarrow> 32 \<in> set s) \<and> (bs = [] \<longleftrightarrow> s = [])"
proof (induction s arbitrary: bs)
  case Nil
  then show ?case by simp
next
  case (Cons c s)
  from Cons.prems obtain b rest where
    b: "encode_utf8_char c = Some b" and rest: "encode_utf8 s = Some rest" and bs: "bs = b @ rest"
    by (auto split: option.splits)
  from Cons.IH [OF rest] encode_utf8_char_bytes [OF b] bs show ?case by auto
qed

lemma encode_utf8_example:
  "encode_utf8 [0xE9, 32, 43, 0x20AC, 0x1F600, 47, 126, 37]
     = Some [0xC3, 0xA9, 32, 43, 0xE2, 0x82, 0xAC, 0xF0, 0x9F, 0x98, 0x80, 47, 126, 37]"
  by (simp add: encode_utf8_char_def)

subsection \<open>Quoting can be read back\<close>

lemma not_always_safe:
  "32 \<notin> set always_safe" "37 \<notin> set always_safe" "43 \<notin> set always_safe"
  "63 \<notin> set always_safe"
  by (simp_all add: always_safe_def u_def)

lemma unhex_hex_digit: "d < 16 \<Longrightarrow> unhex (hex_digit d) = d"
  by (simp add: unhex_def hex_digit_def)

lemma hex_digit_range: "d < 16 \<Longrightarrow> 48 \<le> hex_digit d \<and> hex_digit d \<noteq> 63"
  by (simp add: hex_digit_def)

lemma unquote_first_plus_quoter:
  assumes "b < 256"
  shows "unquote_first (plus_quoter b @ r) = b"
proof -
  consider "b = 32" | "b \<noteq> 32" "b \<in> set always_safe" | "b \<noteq> 32" "b \<notin> set always_safe"
    by blast
  then show ?thesis
  proof cases
    case 1
    then show ?thesis by (simp add: plus_quoter_def unquote_first_def)
  next
    case 2
    with not_always_safe have "b \<noteq> 43" "b \<noteq> 37" by blast+
    with 2 show ?thesis by (simp add: plus_quoter_def unquote_first_def)
  next
    case 3
    from assms have "b div 16 < 16" by arith
    then have "unhex (hex_digit (b div 16)) = b div 16" by (rule unhex_hex_digit)
    moreover have "unhex (hex_digit (b mod 16)) = b mod 16" by (rule unhex_hex_digit) simp
    moreover have "16 * (b div 16) + b mod 16 = b" by simp
    ultimately show ?thesis using 3 by (simp add: plus_quoter_def unquote_first_def)
  qed
qed

lemma plus_quoter_chars:
  assumes "b < 256"
  shows "plus_quoter b \<noteq> [] \<and> 63 \<notin> set (plus_quoter b)"
proof -
  from assms have "b div 16 < 16" by arith
  then have "hex_digit (b div 16) \<noteq> 63" using hex_digit_range by blast
  moreover have "hex_digit (b mod 16) \<noteq> 63" using hex_digit_range [of "b mod 16"] by simp
  ultimately show ?thesis using not_always_safe by (auto simp: plus_quoter_def)
qed

lemma concat_plus_quoter_inj:
  assumes "\<forall>b \<in> set xs. b < 256" "\<forall>b \<in> set ys. b < 256"
    and "concat (map plus_quoter xs) = concat (map plus_quoter ys)"
  shows "xs = ys"
proof (rule concat_map_decodable [of "{b. b < 256}" unquote_first plus_quoter xs ys])
  show "unquote_first (plus_quoter x @ r) = x" if "x \<in> {b. b < 256}" for x r
    using that by (simp add: unquote_first_plus_quoter)
  show "plus_quoter x \<noteq> []" if "x \<in> {b. b < 256}" for x
    using that plus_quoter_chars by simp
  show "set xs \<subseteq> {b. b < 256}" using assms(1) by blast
  show "set ys \<subseteq> {b. b < 256}" using assms(2) by blast
  show "concat (map plus_quoter xs) = concat (map plus_quoter ys)" by (rule assms(3))
qed

lemma concat_plus_quoter_chars:
  "\<forall>b \<in> set bs. b < 256 \<Longrightarrow> 63 \<notin> set (concat (map plus_quoter bs))"
  using plus_quoter_chars by auto

lemma concat_singletons: "concat (map (\<lambda>b. [b]) bs) = bs"
  by (induction bs) simp_all

lemma quote_from_bytes_concat:
  "quote_from_bytes bs safe = concat (map (quoter (filter (\<lambda>c. c < 128) safe)) bs)"
proof (cases "list_all (\<lambda>b. b \<in> set (always_safe @ filter (\<lambda>c. c < 128) safe)) bs")
  case True
  then have "map (quoter (filter (\<lambda>c. c < 128) safe)) bs = map (\<lambda>b. [b]) bs"
    by (simp add: list_all_iff quoter_def)
  then have "concat (map (quoter (filter (\<lambda>c. c < 128) safe)) bs) = bs"
    by (simp only: concat_singletons)
  with True show ?thesis by (simp add: quote_from_bytes_def Let_def)
next
  case False
  then show ?thesis by (auto simp: quote_from_bytes_def Let_def)
qed

lemma quote_concat:
  assumes "encode_utf8 s = Some bs"
  shows "quote s safe = Some (concat (map (quoter (filter (\<lambda>c. c < 128) safe)) bs))"
proof (cases "s = []")
  case True
  with assms show ?thesis by (simp add: quote_def)
next
  case False
  with assms show ?thesis by (simp add: quote_def quote_from_bytes_concat)
qed

lemma quote_None: "encode_utf8 s = None \<Longrightarrow> quote s safe = None"
  by (cases s) (simp_all add: quote_def)

lemma quoter_no_space:
  "b \<noteq> 32 \<Longrightarrow> quoter [] b = plus_quoter b"
  by (simp add: quoter_def plus_quoter_def)

lemma quoter_space:
  assumes "b < 256"
  shows "replace 32 43 (quoter [32] b) = plus_quoter b"
proof -
  from assms have "b div 16 < 16" by arith
  then have "hex_digit (b div 16) \<noteq> 32" using hex_digit_range [of "b div 16"] by simp
  moreover have "hex_digit (b mod 16) \<noteq> 32" using hex_digit_range [of "b mod 16"] by simp
  ultimately show ?thesis
    using not_always_safe by (auto simp: quoter_def plus_quoter_def replace_def)
qed

lemma replace_concat: "replace a b (concat xss) = concat (map (replace a b) xss)"
  by (induction xss) (simp_all add: replace_def)

lemma quote_plus_concat:
  assumes "encode_utf8 s = Some bs"
  shows "quote_plus s [] = Some (concat (map plus_quoter bs))"
proof (cases "32 \<in> set s")
  case False
  with encode_utf8_bytes [OF assms] have "\<forall>b \<in> set bs. b \<noteq> 32" by blast
  then have "map (quoter []) bs = map plus_quoter bs"
    by (simp add: quoter_no_space)
  with False quote_concat [OF assms, of "[]"] show ?thesis
    by (simp add: quote_plus_def)
next
  case True
  from encode_utf8_bytes [OF assms] have "\<forall>b \<in> set bs. b < 256" by blast
  then have m: "map (replace 32 43 \<circ> quoter [32]) bs = map plus_quoter bs"
    by (simp add: quoter_space)
  have "replace 32 43 (concat (map (quoter [32]) bs))
          = concat (map (replace 32 43) (map (quoter [32]) bs))"
    by (rule replace_concat)
  also have "\<dots> = concat (map (replace 32 43 \<circ> quoter [32]) bs)"
    by (simp only: map_map)
  finally have "replace 32 43 (concat (map (quoter [32]) bs)) = concat (map plus_quoter bs)"
    unfolding m .
  moreover have "quote s ([] @ u '' '') = Some (concat (map (quoter [32]) bs))"
    using quote_concat [OF assms, of "[] @ u '' ''"] by (simp add: u_def)
  ultimately show ?thesis using True by (simp add: quote_plus_def)
qed

lemma quote_plus_None: "encode_utf8 s = None \<Longrightarrow> quote_plus s [] = None"
  by (simp add: quote_plus_def quote_None)

lemma quote_plus_inj:
  assumes "quote_plus s [] = Some q" "quote_plus t [] = Some q"
  shows "s = t"
proof -
  from assms(1) quote_plus_None [of s] obtain bs where bs: "encode_utf8 s = Some bs"
    by (cases "encode_utf8 s") simp_all
  from assms(2) quote_plus_None [of t] obtain bt where bt: "encode_utf8 t = Some bt"
    by (cases "encode_utf8 t") simp_all
  from assms quote_plus_concat [OF bs] quote_plus_concat [OF bt]
  have "concat (map plus_quoter bs) = concat (map plus_quoter bt)" by simp
  moreover from encode_utf8_bytes [OF bs] have "\<forall>b \<in> set bs. b < 256" by blast
  moreover from encode_utf8_bytes [OF bt] have "\<forall>b \<in> set bt. b < 256" by blast
  ultimately have "bs = bt" by (rule concat_plus_quoter_inj [rotated 2])
  with bt have "encode_utf8 t = Some bs" by simp
  with bs show ?thesis by (rule encode_utf8_inj)
qed

lemma quote_plus_no_question:
  assumes "quote_plus s [] = Some q"
  shows "63 \<notin> set q"
proof -
  from assms quote_plus_None [of s] obtain bs where bs: "encode_utf8 s = Some bs"
    by (cases "encode_utf8 s") simp_all
  from encode_utf8_bytes [OF bs] have "\<forall>b \<in> set bs. b < 256" by blast
  then have "63 \<notin> set (concat (map plus_quoter bs))" by (rule concat_plus_quoter_chars)
  with assms quote_plus_concat [OF bs] show ?thesis by simp
qed

lemma quote_plus_example:
  "quote_plus [0xE9, 32, 43, 0x20AC, 0x1F600, 47, 126, 37] []
     = Some (u ''%C3%A9+%2B%E2%82%AC%F0%9F%98%80%2F~%25'')"
  unfolding quote_plus_concat [OF encode_utf8_example]
  by (simp add: plus_quoter_def hex_digit_def always_safe_def u_def)

lemma quote_plus_surrogate: "quote_plus [0xDC80] [] = None"
  by (rule quote_plus_None) (simp add: encode_utf8_char_def)

subsection \<open>The connection descriptor\<close>

lemma quote_plus_agentId: "quote_plus (u ''agentId'') [] = Some (u ''agentId'')"
  by code_simp

lemma quote_plus_agentDescription:
  "quote_plus (u ''agentDescription'') [] = Some (u ''agentDescription'')"
  by code_simp

lemma quote_plus_description:
  "quote_plus (u ''An AI agent that generates Reddit posts with memory-enhanced personalization'') []
     = Some (u ''An+AI+agent+that+generates+Reddit+posts+with+memory-enhanced+personalization'')"
  by code_simp

lemma quote_plus_None_text: "quote_plus (u ''None'') [] = Some (u ''None'')"
  by code_simp

lemma coral_server_url_shape:
  "coral_server_url base_url agent_id =
     (case quote_plus (py_str agent_id) [] of
        None \<Rightarrow> None
      | Some q \<Rightarrow>
          Some (py_str base_url @ u ''?'' @ u ''agentId='' @ q
                  @ u ''&agentDescription=An+AI+agent+that+generates+Reddit+posts+with+memory-enhanced+personalization''))"
proof (cases "quote_plus (py_str agent_id) []")
  case None
  then show ?thesis
    by (simp add: coral_server_url_def urlencode_def quote_plus_agentId)
next
  case (Some q)
  have "u ''agentId'' @ u ''='' @ q @ u ''&'' @ u ''agentDescription'' @ u ''=''
          @ u ''An+AI+agent+that+generates+Reddit+posts+with+memory-enhanced+personalization''
        = u ''agentId='' @ q
          @ u ''&agentDescription=An+AI+agent+that+generates+Reddit+posts+with+memory-enhanced+personalization''"
    by (simp add: u_def)
  with Some show ?thesis
    by (simp add: coral_server_url_def urlencode_def quote_plus_agentId
          quote_plus_agentDescription quote_plus_description)
qed

lemma split_at_last:
  assumes "x \<notin> set q1" "x \<notin> set q2" "b1 @ x # q1 = b2 @ x # q2"
  shows "b1 = b2 \<and> q1 = q2"
proof -
  have tw: "takeWhile (\<lambda>c. c \<noteq> x) (rev q @ x # rev b) = rev q" if "x \<notin> set q" for q b
  proof -
    have "takeWhile (\<lambda>c. c \<noteq> x) (rev q @ x # rev b)
            = rev q @ takeWhile (\<lambda>c. c \<noteq> x) (x # rev b)"
      using that by (intro takeWhile_append2) auto
    then show ?thesis by simp
  qed
  from assms(3) have "rev (b1 @ x # q1) = rev (b2 @ x # q2)" by simp
  then have "rev q1 @ x # rev b1 = rev q2 @ x # rev b2" by simp
  then have "takeWhile (\<lambda>c. c \<noteq> x) (rev q1 @ x # rev b1)
               = takeWhile (\<lambda>c. c \<noteq> x) (rev q2 @ x # rev b2)" by simp
  then have "rev q1 = rev q2" unfolding tw [OF assms(1)] tw [OF assms(2)] .
  then have q: "q1 = q2" by simp
  with assms(3) show ?thesis by simp
qed

lemma coral_server_url_Some:
  assumes "coral_server_url base_url agent_id = Some session_url"
  obtains q where "quote_plus (py_str agent_id) [] = Some q"
    and "session_url = py_str base_url @ 63 # (u ''agentId='' @ q
          @ u ''&agentDescription=An+AI+agent+that+generates+Reddit+posts+with+memory-enhanced+personalization'')"
proof (cases "quote_plus (py_str agent_id) []")
  case None
  with assms show thesis by (simp add: coral_server_url_shape)
next
  case (Some q)
  with assms have "session_url = py_str base_url @ u ''?'' @ u ''agentId='' @ q
          @ u ''&agentDescription=An+AI+agent+that+generates+Reddit+posts+with+memory-enhanced+personalization''"
    by (simp add: coral_server_url_shape)
  moreover have "u ''?'' = [63]" by (simp add: u_def)
  ultimately have "session_url = py_str base_url @ 63 # (u ''agentId='' @ q
          @ u ''&agentDescription=An+AI+agent+that+generates+Reddit+posts+with+memory-enhanced+personalization'')"
    by simp
  with Some show thesis by (rule that)
qed

lemma query_no_question:
  assumes "63 \<notin> set q"
  shows "63 \<notin> set (u ''agentId='' @ q
          @ u ''&agentDescription=An+AI+agent+that+generates+Reddit+posts+with+memory-enhanced+personalization'')"
proof -
  have "63 \<notin> set (u ''agentId='')" by (simp add: u_def)
  moreover have "63 \<notin> set (u ''&agentDescription=An+AI+agent+that+generates+Reddit+posts+with+memory-enhanced+personalization'')"
    by (simp add: u_def)
  ultimately show ?thesis using assms by simp
qed

lemma coral_server_url_determines:
  assumes "coral_server_url base1 agent1 = Some session_url" "coral_server_url base2 agent2 = Some session_url"
  shows "py_str base1 = py_str base2 \<and> py_str agent1 = py_str agent2"
proof -
  let ?d = "u ''&agentDescription=An+AI+agent+that+generates+Reddit+posts+with+memory-enhanced+personalization''"
  from assms(1) obtain q1 where q1: "quote_plus (py_str agent1) [] = Some q1"
    and u1: "session_url = py_str base1 @ 63 # (u ''agentId='' @ q1 @ ?d)"
    by (rule coral_server_url_Some)
  from assms(2) obtain q2 where q2: "quote_plus (py_str agent2) [] = Some q2"
    and u2: "session_url = py_str base2 @ 63 # (u ''agentId='' @ q2 @ ?d)"
    by (rule coral_server_url_Some)
  have n1: "63 \<notin> set (u ''agentId='' @ q1 @ ?d)"
    by (rule query_no_question [OF quote_plus_no_question [OF q1]])
  have n2: "63 \<notin> set (u ''agentId='' @ q2 @ ?d)"
    by (rule query_no_question [OF quote_plus_no_question [OF q2]])
  from u1 u2 have "py_str base1 @ 63 # (u ''agentId='' @ q1 @ ?d)
                     = py_str base2 @ 63 # (u ''agentId='' @ q2 @ ?d)" by simp
  from split_at_last [OF n1 n2 this]
  have b: "py_str base1 = py_str base2" and "u ''agentId='' @ q1 @ ?d = u ''agentId='' @ q2 @ ?d"
    by simp_all
  then have "q1 = q2" by simp
  with q2 have "quote_plus (py_str agent2) [] = Some q1" by simp
  with q1 have "py_str agent1 = py_str agent2" by (rule quote_plus_inj)
  with b show ?thesis by simp
qed

lemma unset_same_as_None_text:
  "coral_server_url None agent_id = coral_server_url (Some (u ''None'')) agent_id"
  "coral_server_url base_url None = coral_server_url base_url (Some (u ''None''))"
  by (simp_all add: coral_server_url_shape cong: option.case_cong)

lemma setup_mcp_tools_run:
  "coral_server_url (reload_environ environ dotenv (u ''CORAL_SSE_URL''))
     (reload_environ environ dotenv (u ''CORAL_AGENT_ID'')) = Some session_url \<Longrightarrow>
   setup_mcp_tools environ dotenv adapter = open_session session_url adapter"
  by (simp add: setup_mcp_tools_def Let_def)

lemma connect_in_open_session:
  "fst (open_session session_url adapter)
     = [Print (u ''Connecting to Coral Server: '' @ session_url),
        LogConnecting (u ''Connecting to Coral Server: '' @ session_url),
        Connect \<lparr>url = session_url, timeout = 600, sse_read_timeout = 600,
                 transport = u ''sse''\<rparr>]"
  by (simp add: open_session_def Let_def)

lemma always_safe_upt:
  "always_safe = [65..<91] @ [97..<123] @ [48..<58] @ [95, 46, 45, 126]"
  by code_simp

lemma always_safe_unreserved: "b \<in> set always_safe \<longleftrightarrow> unreserved b"
proof -
  have "b \<in> set always_safe \<longleftrightarrow>
          (65 \<le> b \<and> b < 91) \<or> (97 \<le> b \<and> b < 123) \<or> (48 \<le> b \<and> b < 58)
            \<or> b = 95 \<or> b = 46 \<or> b = 45 \<or> b = 126"
    by (simp only: always_safe_upt set_append set_upt list.set Un_iff atLeastLessThan_iff
          insert_iff empty_iff disj_assoc simp_thms)
  also have "\<dots> \<longleftrightarrow> unreserved b" unfolding unreserved_def by linarith
  finally show ?thesis .
qed

lemma below_16: "d < 16 \<Longrightarrow> d \<in> set [0, 1, 2, 3, 4, 5, 6, 7, 8, 9, 10, 11, 12, 13, 14, 15::nat]"
proof -
  have "[0..<16] = [0, 1, 2, 3, 4, 5, 6, 7, 8, 9, 10, 11, 12, 13, 14, 15::nat]" by code_simp
  moreover assume "d < 16"
  then have "d \<in> set [0..<16]" by simp
  ultimately show ?thesis by simp
qed

lemma hex_digit_table:
  assumes "d < 16"
  shows "of_char (''0123456789ABCDEF'' ! d) = hex_digit d \<and> unreserved (hex_digit d)"
  using below_16 [OF assms] by (auto simp: hex_digit_def unreserved_def)

lemma form_urlencoded_byte_plus_quoter:
  assumes "b < 256"
  shows "form_urlencoded_byte b = plus_quoter b"
proof -
  from assms have "b div 16 < 16" by arith
  then have h1: "of_char (''0123456789ABCDEF'' ! (b div 16)) = hex_digit (b div 16)"
    using hex_digit_table by blast
  have "b mod 16 < 16" by simp
  then have h2: "of_char (''0123456789ABCDEF'' ! (b mod 16)) = hex_digit (b mod 16)"
    using hex_digit_table by blast
  show ?thesis
    unfolding form_urlencoded_byte_def plus_quoter_def percent_encoded_def h1 h2
      always_safe_unreserved ..
qed

lemma form_urlencoded_byte_chars:
  assumes "b < 256"
  shows "\<forall>c \<in> set (form_urlencoded_byte b). unreserved c \<or> c = 37 \<or> c = 43"
proof -
  from assms have "b div 16 < 16" by arith
  then have h1: "unreserved (hex_digit (b div 16))" using hex_digit_table by blast
  have "b mod 16 < 16" by simp
  then have h2: "unreserved (hex_digit (b mod 16))" using hex_digit_table by blast
  show ?thesis
    unfolding form_urlencoded_byte_plus_quoter [OF assms]
    using h1 h2 by (simp add: plus_quoter_def always_safe_unreserved)
qed

lemma quote_plus_form_urlencoded:
  assumes "encode_utf8 s = Some bs"
  shows "quote_plus s [] = Some (form_urlencoded bs)"
    and "\<forall>c \<in> set (form_urlencoded bs). unreserved c \<or> c = 37 \<or> c = 43"
proof -
  from encode_utf8_bytes [OF assms] have bytes: "\<forall>b \<in> set bs. b < 256" by blast
  then have "map form_urlencoded_byte bs = map plus_quoter bs"
    by (simp add: form_urlencoded_byte_plus_quoter)
  then have "form_urlencoded bs = concat (map plus_quoter bs)"
    unfolding form_urlencoded_def by (rule arg_cong)
  with quote_plus_concat [OF assms] show "quote_plus s [] = Some (form_urlencoded bs)" by simp
  show "\<forall>c \<in> set (form_urlencoded bs). unreserved c \<or> c = 37 \<or> c = 43"
    unfolding form_urlencoded_def using bytes form_urlencoded_byte_chars by auto
qed

text \<open>
  Claim C5. When the environment gives \<open>CORAL_SSE_URL = base_url\<close> and
  \<open>CORAL_AGENT_ID = agent_id\<close>, the descriptor is \<open>base_url\<close>, then \<open>?\<close>, then
  \<open>agentId=\<close> with the URL-encoded \<open>agent_id\<close>, then \<open>&agentDescription=\<close> with the
  URL-encoded description, and this is the URL with which \<open>setup_mcp_tools\<close> opens the
  session. URL-encoded is meant as \<open>form_urlencoded\<close> defines it, applied to the UTF-8
  bytes of \<open>agent_id\<close>; the encoded value consists of unreserved characters, \<open>%\<close> and
  \<open>+\<close> only. The scenario \<open>base_url = https://x/sse\<close>, \<open>agent_id = A1\<close> follows the
  theorem, and so does an identity with a space, a slash, a letter outside ASCII and a
  question mark.
\<close>

theorem descriptor_from_environment:
  assumes "reload_environ environ dotenv (u ''CORAL_SSE_URL'') = Some base_url"
    and "reload_environ environ dotenv (u ''CORAL_AGENT_ID'') = Some agent_id"
    and "encode_utf8 agent_id = Some bytes"
  shows "coral_server_url (Some base_url) (Some agent_id)
           = Some (base_url @ u ''?'' @ u ''agentId='' @ form_urlencoded bytes
               @ u ''&agentDescription=An+AI+agent+that+generates+Reddit+posts+with+memory-enhanced+personalization'')
         \<and> setup_mcp_tools environ dotenv adapter
           = open_session (base_url @ u ''?'' @ u ''agentId='' @ form_urlencoded bytes
               @ u ''&agentDescription=An+AI+agent+that+generates+Reddit+posts+with+memory-enhanced+personalization'')
               adapter
         \<and> (\<forall>c \<in> set (form_urlencoded bytes). unreserved c \<or> c = 37 \<or> c = 43)"
proof -
  have q: "quote_plus agent_id [] = Some (form_urlencoded bytes)"
    using assms(3) by (rule quote_plus_form_urlencoded)
  have c: "coral_server_url (Some base_url) (Some agent_id)
           = Some (base_url @ u ''?'' @ u ''agentId='' @ form_urlencoded bytes
               @ u ''&agentDescription=An+AI+agent+that+generates+Reddit+posts+with+memory-enhanced+personalization'')"
    using q by (simp add: coral_server_url_shape)
  then have s: "setup_mcp_tools environ dotenv adapter
           = open_session (base_url @ u ''?'' @ u ''agentId='' @ form_urlencoded bytes
               @ u ''&agentDescription=An+AI+agent+that+generates+Reddit+posts+with+memory-enhanced+personalization'')
               adapter"
    by (intro setup_mcp_tools_run) (simp only: assms(1,2))
  have a: "\<forall>c \<in> set (form_urlencoded bytes). unreserved c \<or> c = 37 \<or> c = 43"
    using assms(3) by (rule quote_plus_form_urlencoded)
  from c s a show ?thesis by blast
qed

theorem descriptor_from_environment_witness:
  "setup_mcp_tools
     [u ''CORAL_SSE_URL'' \<mapsto> u ''https://x/sse'', u ''CORAL_AGENT_ID'' \<mapsto> u ''A1'']
     Map.empty adapter_ok
   = ([Print (u ''Connecting to Coral Server: https://x/sse?agentId=A1&agentDescription=An+AI+agent+that+generates+Reddit+posts+with+memory-enhanced+personalization''),
       LogConnecting (u ''Connecting to Coral Server: https://x/sse?agentId=A1&agentDescription=An+AI+agent+that+generates+Reddit+posts+with+memory-enhanced+personalization''),
       Connect \<lparr>url = u ''https://x/sse?agentId=A1&agentDescription=An+AI+agent+that+generates+Reddit+posts+with+memory-enhanced+personalization'',
                timeout = 600, sse_read_timeout = 600, transport = u ''sse''\<rparr>],
      Inr ())
   \<and> setup_mcp_tools
     [u ''CORAL_SSE_URL'' \<mapsto> u ''https://x/sse'',
      u ''CORAL_AGENT_ID'' \<mapsto> u ''my agent/'' @ [0xE9] @ u ''?'']
     Map.empty adapter_ok
   = open_session (u ''https://x/sse?agentId=my+agent%2F%C3%A9%3F&agentDescription=An+AI+agent+that+generates+Reddit+posts+with+memory-enhanced+personalization'')
       adapter_ok"
proof (rule conjI)
  let ?env = "[u ''CORAL_SSE_URL'' \<mapsto> u ''https://x/sse'', u ''CORAL_AGENT_ID'' \<mapsto> u ''A1'']"
  have b: "reload_environ ?env Map.empty (u ''CORAL_SSE_URL'') = Some (u ''https://x/sse'')"
    by (simp add: reload_environ_def load_dotenv_def u_def)
  have a: "reload_environ ?env Map.empty (u ''CORAL_AGENT_ID'') = Some (u ''A1'')"
    by (simp add: reload_environ_def load_dotenv_def u_def)
  have e: "encode_utf8 (u ''A1'') = Some (u ''A1'')"
    by (simp add: u_def encode_utf8_char_def)
  have f: "form_urlencoded (u ''A1'') = u ''A1''"
    by (simp add: form_urlencoded_def form_urlencoded_byte_def unreserved_def u_def)
  from descriptor_from_environment [OF b a e, of adapter_ok]
  have "setup_mcp_tools ?env Map.empty adapter_ok
          = open_session (u ''https://x/sse'' @ u ''?'' @ u ''agentId='' @ u ''A1''
              @ u ''&agentDescription=An+AI+agent+that+generates+Reddit+posts+with+memory-enhanced+personalization'')
              adapter_ok"
    unfolding f by blast
  then show "setup_mcp_tools ?env Map.empty adapter_ok
   = ([Print (u ''Connecting to Coral Server: https://x/sse?agentId=A1&agentDescription=An+AI+agent+that+generates+Reddit+posts+with+memory-enhanced+personalization''),
       LogConnecting (u ''Connecting to Coral Server: https://x/sse?agentId=A1&agentDescription=An+AI+agent+that+generates+Reddit+posts+with+memory-enhanced+personalization''),
       Connect \<lparr>url = u ''https://x/sse?agentId=A1&agentDescription=An+AI+agent+that+generates+Reddit+posts+with+memory-enhanced+personalization'',
                timeout = 600, sse_read_timeout = 600, transport = u ''sse''\<rparr>],
      Inr ())"
    by (simp add: open_session_def Let_def adapter_ok_def u_def)
next
  let ?id = "u ''my agent/'' @ [0xE9] @ u ''?''"
  let ?env = "[u ''CORAL_SSE_URL'' \<mapsto> u ''https://x/sse'', u ''CORAL_AGENT_ID'' \<mapsto> ?id]"
  have b: "reload_environ ?env Map.empty (u ''CORAL_SSE_URL'') = Some (u ''https://x/sse'')"
    by (simp add: reload_environ_def load_dotenv_def u_def)
  have a: "reload_environ ?env Map.empty (u ''CORAL_AGENT_ID'') = Some ?id"
    by (simp add: reload_environ_def load_dotenv_def u_def)
  have e: "encode_utf8 ?id = Some (u ''my agent/'' @ [0xC3, 0xA9] @ u ''?'')"
    by (simp add: u_def encode_utf8_char_def)
  have f: "form_urlencoded (u ''my agent/'' @ [0xC3, 0xA9] @ u ''?'') = u ''my+agent%2F%C3%A9%3F''"
    by (simp add: form_urlencoded_def form_urlencoded_byte_def unreserved_def
          percent_encoded_def u_def)
  from descriptor_from_environment [OF b a e, of adapter_ok]
  have "setup_mcp_tools ?env Map.empty adapter_ok
          = open_session (u ''https://x/sse'' @ u ''?'' @ u ''agentId='' @ u ''my+agent%2F%C3%A9%3F''
              @ u ''&agentDescription=An+AI+agent+that+generates+Reddit+posts+with+memory-enhanced+personalization'')
              adapter_ok"
    unfolding f by blast
  moreover have "u ''https://x/sse'' @ u ''?'' @ u ''agentId='' @ u ''my+agent%2F%C3%A9%3F''
              @ u ''&agentDescription=An+AI+agent+that+generates+Reddit+posts+with+memory-enhanced+personalization''
     = u ''https://x/sse?agentId=my+agent%2F%C3%A9%3F&agentDescription=An+AI+agent+that+generates+Reddit+posts+with+memory-enhanced+personalization''"
    by (simp add: u_def)
  ultimately show "setup_mcp_tools ?env Map.empty adapter_ok
   = open_session (u ''https://x/sse?agentId=my+agent%2F%C3%A9%3F&agentDescription=An+AI+agent+that+generates+Reddit+posts+with+memory-enhanced+personalization'')
       adapter_ok" by simp
qed

text \<open>
  Claim C6. Two different pairs of agent identity and base URL never give the same
  descriptor. The last \<open>?\<close> of a descriptor is the one the function wrote, because
  quoting leaves no \<open>?\<close> in the query; what stands before it is the base URL, and the
  quoted identity determines the identity. The pairs are pairs of strings: an unset
  variable is rendered as the text \<open>None\<close>, as the lemma on unset variables above says.
  The example takes two pairs that would collide without quoting.
\<close>

theorem coral_server_url_injective:
  assumes "(agent_id1, base_url1) \<noteq> (agent_id2, base_url2)"
    and "coral_server_url (Some base_url1) (Some agent_id1) = Some session_url1"
    and "coral_server_url (Some base_url2) (Some agent_id2) = Some session_url2"
  shows "session_url1 \<noteq> session_url2"
proof
  assume "session_url1 = session_url2"
  with assms(2,3) have "py_str (Some base_url1) = py_str (Some base_url2)
      \<and> py_str (Some agent_id1) = py_str (Some agent_id2)"
    by (intro coral_server_url_determines [of _ _ session_url2]) simp_all
  with assms(1) show False by simp
qed

theorem coral_server_url_injective_witness:
  "coral_server_url (Some (u ''https://x/sse'')) (Some (u ''A?agentId=B''))
     = Some (u ''https://x/sse?agentId=A%3FagentId%3DB&agentDescription=An+AI+agent+that+generates+Reddit+posts+with+memory-enhanced+personalization'')
   \<and> coral_server_url (Some (u ''https://x/sse?agentId=A'')) (Some (u ''B''))
     = Some (u ''https://x/sse?agentId=A?agentId=B&agentDescription=An+AI+agent+that+generates+Reddit+posts+with+memory-enhanced+personalization'')
   \<and> u ''https://x/sse?agentId=A%3FagentId%3DB&agentDescription=An+AI+agent+that+generates+Reddit+posts+with+memory-enhanced+personalization''
     \<noteq> u ''https://x/sse?agentId=A?agentId=B&agentDescription=An+AI+agent+that+generates+Reddit+posts+with+memory-enhanced+personalization''"
proof -
  have q1: "quote_plus (u ''A?agentId=B'') [] = Some (u ''A%3FagentId%3DB'')" by code_simp
  have q2: "quote_plus (u ''B'') [] = Some (u ''B'')" by code_simp
  have d: "(u ''A?agentId=B'', u ''https://x/sse'') \<noteq> (u ''B'', u ''https://x/sse?agentId=A'')"
    by (simp add: u_def)
  have c1: "coral_server_url (Some (u ''https://x/sse'')) (Some (u ''A?agentId=B''))
     = Some (u ''https://x/sse?agentId=A%3FagentId%3DB&agentDescription=An+AI+agent+that+generates+Reddit+posts+with+memory-enhanced+personalization'')"
    by (simp add: coral_server_url_shape q1) (simp add: u_def)
  have c2: "coral_server_url (Some (u ''https://x/sse?agentId=A'')) (Some (u ''B''))
     = Some (u ''https://x/sse?agentId=A?agentId=B&agentDescription=An+AI+agent+that+generates+Reddit+posts+with+memory-enhanced+personalization'')"
    by (simp add: coral_server_url_shape q2) (simp add: u_def)
  from coral_server_url_injective [OF d c1 c2] c1 c2 show ?thesis by simp
qed

text \<open>
  Claim C10. When \<open>CORAL_SSE_URL\<close> or \<open>CORAL_AGENT_ID\<close> is unset, \<open>os.getenv\<close> gives
  \<open>None\<close> and the descriptor is still built, with the text \<open>None\<close> in the place of the
  missing value; \<open>setup_mcp_tools\<close> then prints and logs it and calls
  \<open>MCPServerAdapter\<close> with it. With both unset the descriptor is
  \<open>None?agentId=None&agentDescription=...\<close>.
\<close>

theorem unset_variables_render_None:
  "(reload_environ environ dotenv (u ''CORAL_SSE_URL'') = None
      \<and> reload_environ environ dotenv (u ''CORAL_AGENT_ID'') = None
    \<longrightarrow> setup_mcp_tools environ dotenv adapter
          = open_session (u ''None?agentId=None&agentDescription=An+AI+agent+that+generates+Reddit+posts+with+memory-enhanced+personalization'')
              adapter)
   \<and> (reload_environ environ dotenv (u ''CORAL_SSE_URL'') = Some base_url
      \<and> reload_environ environ dotenv (u ''CORAL_AGENT_ID'') = None
    \<longrightarrow> setup_mcp_tools environ dotenv adapter
          = open_session (base_url @ u ''?agentId=None&agentDescription=An+AI+agent+that+generates+Reddit+posts+with+memory-enhanced+personalization'')
              adapter)
   \<and> (reload_environ environ dotenv (u ''CORAL_SSE_URL'') = None
      \<and> reload_environ environ dotenv (u ''CORAL_AGENT_ID'') = Some agent_id
      \<and> quote_plus agent_id [] = Some q
    \<longrightarrow> setup_mcp_tools environ dotenv adapter
          = open_session (u ''None?agentId='' @ q
              @ u ''&agentDescription=An+AI+agent+that+generates+Reddit+posts+with+memory-enhanced+personalization'')
              adapter)
   \<and> fst (open_session session_url adapter)
       = [Print (u ''Connecting to Coral Server: '' @ session_url),
          LogConnecting (u ''Connecting to Coral Server: '' @ session_url),
          Connect \<lparr>url = session_url, timeout = 600, sse_read_timeout = 600,
                   transport = u ''sse''\<rparr>]"
proof (intro conjI impI)
  let ?d = "u ''&agentDescription=An+AI+agent+that+generates+Reddit+posts+with+memory-enhanced+personalization''"
  have none: "coral_server_url b None = Some (py_str b @ u ''?'' @ u ''agentId='' @ u ''None'' @ ?d)"
    for b
    by (simp add: coral_server_url_shape quote_plus_None_text)
  {
    assume "reload_environ environ dotenv (u ''CORAL_SSE_URL'') = None
      \<and> reload_environ environ dotenv (u ''CORAL_AGENT_ID'') = None"
    then have "coral_server_url (reload_environ environ dotenv (u ''CORAL_SSE_URL''))
                 (reload_environ environ dotenv (u ''CORAL_AGENT_ID''))
               = Some (u ''None'' @ u ''?'' @ u ''agentId='' @ u ''None'' @ ?d)"
      using none [of None] by simp
    then have "setup_mcp_tools environ dotenv adapter
      = open_session (u ''None'' @ u ''?'' @ u ''agentId='' @ u ''None'' @ ?d) adapter"
      by (rule setup_mcp_tools_run)
    moreover have "u ''None'' @ u ''?'' @ u ''agentId='' @ u ''None'' @ ?d
      = u ''None?agentId=None&agentDescription=An+AI+agent+that+generates+Reddit+posts+with+memory-enhanced+personalization''"
      by (simp add: u_def)
    ultimately show "setup_mcp_tools environ dotenv adapter
          = open_session (u ''None?agentId=None&agentDescription=An+AI+agent+that+generates+Reddit+posts+with+memory-enhanced+personalization'')
              adapter" by simp
  }
  {
    assume "reload_environ environ dotenv (u ''CORAL_SSE_URL'') = Some base_url
      \<and> reload_environ environ dotenv (u ''CORAL_AGENT_ID'') = None"
    then have "coral_server_url (reload_environ environ dotenv (u ''CORAL_SSE_URL''))
                 (reload_environ environ dotenv (u ''CORAL_AGENT_ID''))
               = Some (base_url @ u ''?'' @ u ''agentId='' @ u ''None'' @ ?d)"
      using none [of "Some base_url"] by simp
    then have "setup_mcp_tools environ dotenv adapter
      = open_session (base_url @ u ''?'' @ u ''agentId='' @ u ''None'' @ ?d) adapter"
      by (rule setup_mcp_tools_run)
    moreover have "u ''?'' @ u ''agentId='' @ u ''None'' @ ?d
      = u ''?agentId=None&agentDescription=An+AI+agent+that+generates+Reddit+posts+with+memory-enhanced+personalization''"
      by (simp add: u_def)
    ultimately show "setup_mcp_tools environ dotenv adapter
          = open_session (base_url @ u ''?agentId=None&agentDescription=An+AI+agent+that+generates+Reddit+posts+with+memory-enhanced+personalization'')
              adapter" by simp
  }
  {
    assume h: "reload_environ environ dotenv (u ''CORAL_SSE_URL'') = None
      \<and> reload_environ environ dotenv (u ''CORAL_AGENT_ID'') = Some agent_id
      \<and> quote_plus agent_id [] = Some q"
    then have "coral_server_url (reload_environ environ dotenv (u ''CORAL_SSE_URL''))
                 (reload_environ environ dotenv (u ''CORAL_AGENT_ID''))
               = Some (u ''None'' @ u ''?'' @ u ''agentId='' @ q @ ?d)"
      by (simp add: coral_server_url_shape)
    then have "setup_mcp_tools environ dotenv adapter
      = open_session (u ''None'' @ u ''?'' @ u ''agentId='' @ q @ ?d) adapter"
      by (rule setup_mcp_tools_run)
    moreover have "u ''None'' @ u ''?'' @ u ''agentId='' @ q @ ?d = u ''None?agentId='' @ q @ ?d"
      by (simp add: u_def)
    ultimately show "setup_mcp_tools environ dotenv adapter
          = open_session (u ''None?agentId='' @ q @ ?d) adapter" by simp
  }
  show "fst (open_session session_url adapter)
       = [Print (u ''Connecting to Coral Server: '' @ session_url),
          LogConnecting (u ''Connecting to Coral Server: '' @ session_url),
          Connect \<lparr>url = session_url, timeout = 600, sse_read_timeout = 600,
                   transport = u ''sse''\<rparr>]"
    by (rule connect_in_open_session)
qed

theorem unset_variables_render_None_witness:
  "setup_mcp_tools Map.empty Map.empty adapter_ok
     = ([Print (u ''Connecting to Coral Server: None?agentId=None&agentDescription=An+AI+agent+that+generates+Reddit+posts+with+memory-enhanced+personalization''),
         LogConnecting (u ''Connecting to Coral Server: None?agentId=None&agentDescription=An+AI+agent+that+generates+Reddit+posts+with+memory-enhanced+personalization''),
         Connect \<lparr>url = u ''None?agentId=None&agentDescription=An+AI+agent+that+generates+Reddit+posts+with+memory-enhanced+personalization'',
                  timeout = 600, sse_read_timeout = 600, transport = u ''sse''\<rparr>],
        Inr ())
   \<and> setup_mcp_tools [u ''CORAL_SSE_URL'' \<mapsto> u ''https://x/sse''] Map.empty adapter_ok
     = open_session (u ''https://x/sse?agentId=None&agentDescription=An+AI+agent+that+generates+Reddit+posts+with+memory-enhanced+personalization'')
         adapter_ok
   \<and> setup_mcp_tools [u ''CORAL_AGENT_ID'' \<mapsto> u ''A1''] Map.empty adapter_ok
     = open_session (u ''None?agentId=A1&agentDescription=An+AI+agent+that+generates+Reddit+posts+with+memory-enhanced+personalization'')
         adapter_ok"
proof (intro conjI)
  let ?d = "u ''&agentDescription=An+AI+agent+that+generates+Reddit+posts+with+memory-enhanced+personalization''"
  have "reload_environ Map.empty Map.empty (u ''CORAL_SSE_URL'') = None
      \<and> reload_environ Map.empty Map.empty (u ''CORAL_AGENT_ID'') = None"
    by (simp add: reload_environ_def load_dotenv_def)
  with unset_variables_render_None
         [where environ = Map.empty and dotenv = Map.empty and adapter = adapter_ok]
  have "setup_mcp_tools Map.empty Map.empty adapter_ok
          = open_session (u ''None?agentId=None&agentDescription=An+AI+agent+that+generates+Reddit+posts+with+memory-enhanced+personalization'')
              adapter_ok"
    by blast
  then show "setup_mcp_tools Map.empty Map.empty adapter_ok
     = ([Print (u ''Connecting to Coral Server: None?agentId=None&agentDescription=An+AI+agent+that+generates+Reddit+posts+with+memory-enhanced+personalization''),
         LogConnecting (u ''Connecting to Coral Server: None?agentId=None&agentDescription=An+AI+agent+that+generates+Reddit+posts+with+memory-enhanced+personalization''),
         Connect \<lparr>url = u ''None?agentId=None&agentDescription=An+AI+agent+that+generates+Reddit+posts+with+memory-enhanced+personalization'',
                  timeout = 600, sse_read_timeout = 600, transport = u ''sse''\<rparr>],
        Inr ())"
    by (simp add: open_session_def Let_def adapter_ok_def u_def)
next
  let ?env = "[u ''CORAL_SSE_URL'' \<mapsto> u ''https://x/sse'']"
  have "reload_environ ?env Map.empty (u ''CORAL_SSE_URL'') = Some (u ''https://x/sse'')
      \<and> reload_environ ?env Map.empty (u ''CORAL_AGENT_ID'') = None"
    by (simp add: reload_environ_def load_dotenv_def u_def)
  with unset_variables_render_None
         [where environ = ?env and dotenv = Map.empty and adapter = adapter_ok
            and base_url = "u ''https://x/sse''"]
  have "setup_mcp_tools ?env Map.empty adapter_ok
          = open_session (u ''https://x/sse''
              @ u ''?agentId=None&agentDescription=An+AI+agent+that+generates+Reddit+posts+with+memory-enhanced+personalization'')
              adapter_ok"
    by blast
  moreover have "u ''https://x/sse''
              @ u ''?agentId=None&agentDescription=An+AI+agent+that+generates+Reddit+posts+with+memory-enhanced+personalization''
    = u ''https://x/sse?agentId=None&agentDescription=An+AI+agent+that+generates+Reddit+posts+with+memory-enhanced+personalization''"
    by (simp add: u_def)
  ultimately show "setup_mcp_tools ?env Map.empty adapter_ok
     = open_session (u ''https://x/sse?agentId=None&agentDescription=An+AI+agent+that+generates+Reddit+posts+with+memory-enhanced+personalization'')
         adapter_ok" by simp
next
  let ?env = "[u ''CORAL_AGENT_ID'' \<mapsto> u ''A1'']"
  have "quote_plus (u ''A1'') [] = Some (u ''A1'')" by code_simp
  moreover have "reload_environ ?env Map.empty (u ''CORAL_SSE_URL'') = None
      \<and> reload_environ ?env Map.empty (u ''CORAL_AGENT_ID'') = Some (u ''A1'')"
    by (simp add: reload_environ_def load_dotenv_def u_def)
  ultimately have "setup_mcp_tools ?env Map.empty adapter_ok
          = open_session (u ''None?agentId='' @ u ''A1''
              @ u ''&agentDescription=An+AI+agent+that+generates+Reddit+posts+with+memory-enhanced+personalization'')
              adapter_ok"
    using unset_variables_render_None
         [where environ = ?env and dotenv = Map.empty and adapter = adapter_ok
            and agent_id = "u ''A1''" and q = "u ''A1''"]
    by blast
  moreover have "u ''None?agentId='' @ u ''A1''
              @ u ''&agentDescription=An+AI+agent+that+generates+Reddit+posts+with+memory-enhanced+personalization''
    = u ''None?agentId=A1&agentDescription=An+AI+agent+that+generates+Reddit+posts+with+memory-enhanced+personalization''"
    by (simp add: u_def)
  ultimately show "setup_mcp_tools ?env Map.empty adapter_ok
     = open_session (u ''None?agentId=A1&agentDescription=An+AI+agent+that+generates+Reddit+posts+with+memory-enhanced+personalization'')
         adapter_ok" by simp
qed

end
